theory Spec2Isabelle
  imports Main "HOL-Library.AList"
begin

section \<open>The webhook proxy of \<open>src/index.js\<close>\<close>

text \<open>
  The class \<open>ProxyServer\<close> is embedded function by function. A JavaScript \<open>Map\<close> is an
  association list in insertion order (\<open>get\<close> is \<^const>\<open>map_of\<close>, \<open>set\<close> is
  \<^const>\<open>AList.update\<close>, \<open>delete\<close> is \<^const>\<open>AList.delete\<close>, iteration is list order).
  Strings are lists of 8-bit code units, which is what Node hands over for request lines
  and header fields. \<open>Date.now()\<close> is a parameter \<open>now\<close> of every handler, read once per
  event. \<open>console.log\<close> is not state and is left out; \<open>addLog\<close> is state and is kept.
\<close>

subsection \<open>Input validation\<close>

type_synonym slug = string

definition slug_chars :: "char list" where
  "slug_chars = ''abcdefghijklmnopqrstuvwxyzABCDEFGHIJKLMNOPQRSTUVWXYZ0123456789_-''"

text \<open>\<open>validator.isLength(slug, {min: 1, max: 50})\<close>: on code units that are no
  surrogates the length it compares is the string length.\<close>

definition isLength :: "string \<Rightarrow> nat \<Rightarrow> nat \<Rightarrow> bool" where
  "isLength s mn mx = (mn \<le> length s \<and> length s \<le> mx)"

text \<open>\<open>validator.matches(slug, /^[a-zA-Z0-9_-]+$/)\<close>: without the \<open>m\<close> flag both anchors
  are the ends of the input.\<close>

definition matches_slug_pattern :: "string \<Rightarrow> bool" where
  "matches_slug_pattern s = (s \<noteq> [] \<and> list_all (\<lambda>c. c \<in> set slug_chars) s)"

definition validateSlug :: "slug \<Rightarrow> bool" where
  "validateSlug s = (isLength s 1 50 \<and> matches_slug_pattern s)"

text \<open>The seven patterns of \<open>validateInput\<close>. All carry the \<open>i\<close> flag; on 8-bit code
  units case folding only identifies the ASCII letters. \<open>\w\<close> is \<open>[A-Za-z0-9_]\<close>,
  \<open>\s\<close> is the JavaScript white space below 256. A class run followed by a character
  outside the class can only match maximally, so \<open>\w+\<close> and \<open>\s*\<close> are
  \<^const>\<open>takeWhile\<close> and \<^const>\<open>dropWhile\<close>.\<close>

definition toLowerCase :: "string \<Rightarrow> string" where
  "toLowerCase s =
     map (\<lambda>c. case map_of (zip ''ABCDEFGHIJKLMNOPQRSTUVWXYZ'' ''abcdefghijklmnopqrstuvwxyz'') c of
                 None \<Rightarrow> c | Some l \<Rightarrow> l) s"

definition is_word :: "char \<Rightarrow> bool" where
  "is_word c = (c \<in> set ''abcdefghijklmnopqrstuvwxyzABCDEFGHIJKLMNOPQRSTUVWXYZ0123456789_'')"

definition is_space :: "char \<Rightarrow> bool" where
  "is_space c = (c \<in> set [CHR 0x09, CHR 0x0A, CHR 0x0B, CHR 0x0C, CHR 0x0D, CHR 0x20, CHR 0xA0])"

text \<open>A literal at the start of the input, case-insensitively; the rest of the input.\<close>

definition lit :: "string \<Rightarrow> string \<Rightarrow> string option" where
  "lit p s = (if toLowerCase (take (length p) s) = p then Some (drop (length p) s) else None)"

text \<open>\<open>pattern.test(input)\<close> for an unanchored pattern: a match may start anywhere.\<close>

fun test_at_any :: "(string \<Rightarrow> bool) \<Rightarrow> string \<Rightarrow> bool" where
  "test_at_any m [] = m []"
| "test_at_any m (c # cs) = (m (c # cs) \<or> test_at_any m cs)"

definition pat_literal :: "string \<Rightarrow> string \<Rightarrow> bool" where
  "pat_literal p s = (lit p s \<noteq> None)"

definition pat_on_handler :: "string \<Rightarrow> bool" where
  "pat_on_handler s =
     (case lit ''on'' s of
        None \<Rightarrow> False
      | Some r \<Rightarrow> takeWhile is_word r \<noteq> [] \<and>
                  (case dropWhile is_space (dropWhile is_word r) of
                     [] \<Rightarrow> False
                   | c # _ \<Rightarrow> c = CHR ''=''))"

definition pat_call :: "string \<Rightarrow> string \<Rightarrow> bool" where
  "pat_call f s =
     (case lit f s of
        None \<Rightarrow> False
      | Some r \<Rightarrow> (case dropWhile is_space r of [] \<Rightarrow> False | c # _ \<Rightarrow> c = CHR ''(''))"

definition dangerousPatterns :: "(string \<Rightarrow> bool) list" where
  "dangerousPatterns =
     [pat_literal ''<script'', pat_literal ''javascript:'', pat_on_handler,
      pat_call ''eval'', pat_call ''expression'', pat_literal ''vbscript:'',
      pat_literal ''data:text/html'']"

text \<open>A header value as Node delivers it: a string, or an array of strings
  (\<open>set-cookie\<close>), for which \<open>typeof input !== 'string'\<close> holds.\<close>

datatype hvalue = HStr string | HArr "string list"

definition validateInput :: "hvalue \<Rightarrow> bool" where
  "validateInput v =
     (case v of
        HArr _ \<Rightarrow> False
      | HStr s \<Rightarrow> \<not> list_ex (\<lambda>pattern. test_at_any pattern s) dangerousPatterns)"

definition dangerousHeaders :: "string list" where
  "dangerousHeaders =
     [''host'', ''content-length'', ''transfer-encoding'', ''connection'',
      ''upgrade'', ''proxy-connection'', ''proxy-authenticate'',
      ''proxy-authorization'', ''te'', ''trailers'']"

text \<open>\<open>sanitizeHeaders\<close> copies the entries that pass into a fresh object, in the order
  of \<open>Object.entries\<close>. The assignment \<open>sanitized[key] = value\<close> creates no property for
  the key \<open>__proto__\<close> (the inherited setter ignores a value that is no object).\<close>

definition header_kept :: "string \<times> hvalue \<Rightarrow> bool" where
  "header_kept kv =
     (toLowerCase (fst kv) \<notin> set dangerousHeaders \<and> validateInput (snd kv) \<and>
      fst kv \<noteq> ''__proto__'')"

definition sanitizeHeaders :: "(string \<times> hvalue) list \<Rightarrow> (string \<times> hvalue) list" where
  "sanitizeHeaders hs = filter header_kept hs"

subsection \<open>Rate limiting\<close>

record config =
  maxConnectionsPerIP :: nat
  maxRequestsPerMinute :: nat
  maxRequestSize :: nat
  allowedOrigins :: "string list"
  slugWhitelist :: "string list"
  enableRateLimit :: bool
  enableCORS :: bool

text \<open>The defaults of the constructor, with no environment variable set.\<close>

definition default_config :: config where
  "default_config =
     \<lparr> maxConnectionsPerIP = 10, maxRequestsPerMinute = 100,
       maxRequestSize = 10 * 1024 * 1024, allowedOrigins = [''*''],
       slugWhitelist = [], enableRateLimit = True, enableCORS = True \<rparr>"

record tracker =
  requests :: "int list"
  connections :: "int list"

type_synonym rate_map = "(string \<times> tracker) list"

text \<open>\<open>checkRateLimit(clientIP, req)\<close>; \<open>upgrade\<close> is
  \<open>req.headers.upgrade === 'websocket'\<close>. The tracker object is mutated in place, so
  the filtered request list is stored also when the call answers \<open>false\<close>.\<close>

definition checkRateLimit :: "config \<Rightarrow> int \<Rightarrow> string \<Rightarrow> bool \<Rightarrow> rate_map \<Rightarrow> bool \<times> rate_map" where
  "checkRateLimit cfg now clientIP upgrade rl =
     (let minuteAgo = now - 60000;
          rl1 = (if map_of rl clientIP = None
                 then AList.update clientIP \<lparr> requests = [], connections = [] \<rparr> rl else rl);
          tr = the (map_of rl1 clientIP);
          tr1 = tr \<lparr> requests := filter (\<lambda>timestamp. timestamp > minuteAgo) (requests tr) \<rparr>
      in if length (requests tr1) \<ge> maxRequestsPerMinute cfg
         then (False, AList.update clientIP tr1 rl1)
         else let tr2 = tr1 \<lparr> requests := requests tr1 @ [now] \<rparr>
              in if upgrade
                 then let tr3 = tr2 \<lparr> connections :=
                                  filter (\<lambda>timestamp. timestamp > minuteAgo) (connections tr2) \<rparr>
                      in if length (connections tr3) \<ge> maxConnectionsPerIP cfg
                         then (False, AList.update clientIP tr3 rl1)
                         else (True, AList.update clientIP
                                 (tr3 \<lparr> connections := connections tr3 @ [now] \<rparr>) rl1)
                 else (True, AList.update clientIP tr2 rl1))"

subsection \<open>Requests, replies and frames\<close>

type_synonym ws = nat
type_synonym request_id = nat
type_synonym conn = nat

text \<open>What the \<open>http\<close> module delivers of a request. \<open>req_ip\<close> is the value of
  \<open>getClientIP(req)\<close>; \<open>req_pathname\<close> is \<open>new URL(req.url, ...).pathname\<close>, with \<open>None\<close>
  when the constructor throws; \<open>req_events\<close> are the \<open>data\<close> chunks (after
  \<open>chunk.toString()\<close>) and a possible \<open>error\<close> event, the end of the list being \<open>end\<close>.\<close>

datatype req_event = Data string | StreamError

record http_req =
  req_ip :: string
  req_method :: string
  req_url :: string
  req_pathname :: "string option"
  req_headers :: "(string \<times> hvalue) list"
  req_events :: "req_event list"

record request_data =
  "method" :: string
  url :: string
  headers :: "(string \<times> hvalue) list"
  body :: string

datatype capture_error = BodyTooLarge | InvalidMethodOrUrl | RequestStreamError | NoRequestObject

text \<open>The body of a reply: \<open>JSON.stringify({ error: e })\<close> for the broker's own errors, or
  the bytes a handler supplied.\<close>

datatype body_out = ErrorJson string | Raw string

text \<open>A \<open>ServerResponse\<close>. \<open>res.headersSent\<close> holds from \<open>writeHead\<close> on.
  \<open>hasBody\<close> is the flag \<open>_hasBody\<close> of Node: it is false on the response to a \<open>HEAD\<close>
  request and, from \<open>writeHead\<close> on, for a status 1xx, 204 or 304; \<open>res.end(data)\<close> then
  drops \<open>data\<close> and the reply has no body. \<open>res_body\<close> is the body of the reply as
  sent.\<close>

record sink =
  res_headers :: "(string \<times> string) list"
  res_status :: "int option"
  res_body :: "body_out option"
  hasBody :: bool

definition fresh_sink :: sink where
  "fresh_sink = \<lparr> res_headers = [], res_status = None, res_body = None, hasBody = True \<rparr>"

definition headersSent :: "sink \<Rightarrow> bool" where
  "headersSent s = (res_status s \<noteq> None)"

text \<open>\<open>res.setHeader(name, value)\<close> on the header list: Node keeps the headers under the
  lower-cased name, so a header set before under a name that differs in case only is
  replaced, name and value, where it stands. The list is in the order of first setting.\<close>

fun setHeader :: "string \<Rightarrow> string \<Rightarrow> (string \<times> string) list \<Rightarrow> (string \<times> string) list" where
  "setHeader k v [] = [(k, v)]"
| "setHeader k v (h # hs) =
     (if toLowerCase (fst h) = toLowerCase k then (k, v) # hs else h # setHeader k v hs)"

definition no_body_status :: "int \<Rightarrow> bool" where
  "no_body_status code = (code = 204 \<or> code = 304 \<or> (100 \<le> code \<and> code \<le> 199))"

text \<open>\<open>res.writeHead(code, {'Content-Type': 'application/json'});
  res.end(JSON.stringify({ error: e }))\<close>.\<close>

definition write_error :: "int \<Rightarrow> string \<Rightarrow> sink \<Rightarrow> sink" where
  "write_error code e s =
     s \<lparr> res_headers := setHeader ''Content-Type'' ''application/json'' (res_headers s),
         res_status := Some code,
         res_body := Some (if hasBody s \<and> \<not> no_body_status code then ErrorJson e else Raw []),
         hasBody := hasBody s \<and> \<not> no_body_status code \<rparr>"

record response =
  statusCode :: "int option"
  resp_headers :: "(string \<times> string) list option"
  resp_body :: "string option"

text \<open>A parsed ingress frame. \<open>m_requestId = None\<close> stands for an absent or falsy
  \<open>requestId\<close>.\<close>

record message =
  m_type :: "string option"
  m_slug :: "string option"
  m_requestId :: "request_id option"
  m_response :: "response option"

datatype log_msg =
    RateLimitExceeded string
  | InvalidSlugAttempt string string
  | UnauthorizedSlugAttempt string string
  | HttpRequestError
  | HandlingRequest request_id slug
  | SentRequest request_id slug
  | ErrorSendingRequest request_id
  | RequestTimedOut request_id
  | ErrorHandlingRequest request_id slug capture_error
  | NoPendingRequestFound request_id
  | ProcessingResponse request_id slug
  | ResponseSent request_id int
  | ErrorSendingResponse request_id
  | MemoryCleanup nat

datatype frame =
    FError string
  | FRegistered slug
  | FRequest slug request_id request_data
  | FLog string log_msg
  | FStatus "slug list" nat
  | FStats nat nat nat

record log_entry =
  l_timestamp :: int
  l_level :: string
  l_message :: log_msg

datatype timer_kind = ForwardDeadline | QueueDeadline

text \<open>An armed \<open>setTimeout\<close>: its kind, the reply sink its closure holds, its due time.
  The handle is the id of the request the closure was made for.\<close>

datatype timer = Timer timer_kind conn int

text \<open>A call of \<open>handleRequestWithClient\<close> that stands at \<open>await collectRequestData\<close>:
  what it holds on to, namely its arguments and \<open>startTime\<close>.\<close>

record started_call =
  s_req :: "http_req option"
  s_res :: conn
  s_slug :: slug
  s_client :: ws
  s_startTime :: int

record pending_request =
  p_res :: conn
  p_timeout :: nat
  p_slug :: slug
  p_req :: "http_req option"
  p_timestamp :: int
  p_startTime :: "int option"

subsection \<open>The server\<close>

text \<open>The fields of \<open>this\<close> (with \<open>this.stats\<close> flattened), then what the server acts on:
  the reply sinks by connection, the armed timers, the frames handed to sockets, the
  \<open>close\<close> calls, the next value of \<open>uuidv4()\<close>, a counter, so that every id is new, and
  the calls of \<open>handleRequestWithClient\<close> that wait for the body of their request, by
  request id in the order they were started.\<close>

record server =
  clients :: "(slug \<times> ws) list"
  pendingRequests :: "(request_id \<times> pending_request) list"
  totalRequests :: nat
  successfulResponses :: nat
  failedResponses :: nat
  responseTimes :: "int option list"
  hourlyStats :: "(int \<times> nat \<times> nat) list"
  dailyStats :: "(int \<times> nat \<times> nat) list"
  logs :: "log_entry list"
  statusClients :: "ws list"
  securityConfig :: config
  rateLimitTracker :: rate_map
  sinks :: "conn \<Rightarrow> sink"
  timers :: "(nat \<times> timer) list"
  outbox :: "(ws \<times> frame) list"
  closes :: "(ws \<times> nat \<times> string) list"
  uuid_next :: nat
  awaiting :: "(request_id \<times> started_call) list"

definition initial_server :: "config \<Rightarrow> server" where
  "initial_server cfg =
     \<lparr> clients = [], pendingRequests = [], totalRequests = 0, successfulResponses = 0,
       failedResponses = 0, responseTimes = [], hourlyStats = [], dailyStats = [], logs = [],
       statusClients = [], securityConfig = cfg, rateLimitTracker = [],
       sinks = (\<lambda>_. fresh_sink), timers = [], outbox = [], closes = [], uuid_next = 0,
       awaiting = [] \<rparr>"

text \<open>What the outside decides at the time of an event: the \<open>readyState\<close> of each socket,
  whether \<open>send\<close> on it throws, and whether \<open>res.setHeader\<close> rejects a header.\<close>

record env =
  readyState :: "ws \<Rightarrow> nat"
  sendThrows :: "ws \<Rightarrow> bool"
  setHeaderThrows :: "string \<Rightarrow> string \<Rightarrow> bool"

text \<open>\<open>ws.send(JSON.stringify(f))\<close>; \<open>None\<close> when it throws.\<close>

definition ws_send :: "env \<Rightarrow> ws \<Rightarrow> frame \<Rightarrow> server \<Rightarrow> server option" where
  "ws_send env w f st =
     (if sendThrows env w then None else Some (st \<lparr> outbox := outbox st @ [(w, f)] \<rparr>))"

text \<open>A \<open>send\<close> inside its own \<open>try\<close>/\<open>catch\<close> that only logs to the console.\<close>

definition try_send :: "env \<Rightarrow> ws \<Rightarrow> frame \<Rightarrow> server \<Rightarrow> server" where
  "try_send env w f st = (case ws_send env w f st of None \<Rightarrow> st | Some st' \<Rightarrow> st')"

definition broadcast_step :: "env \<Rightarrow> frame \<Rightarrow> server \<Rightarrow> ws \<Rightarrow> server" where
  "broadcast_step env f st w =
     (if readyState env w = 1
      then (case ws_send env w f st of
              Some st' \<Rightarrow> st'
            | None \<Rightarrow> st \<lparr> statusClients := removeAll w (statusClients st) \<rparr>)
      else st \<lparr> statusClients := removeAll w (statusClients st) \<rparr>)"

definition broadcastToStatusClients :: "env \<Rightarrow> frame \<Rightarrow> server \<Rightarrow> server" where
  "broadcastToStatusClients env f st = foldl (broadcast_step env f) st (statusClients st)"

definition maxLogs :: nat where
  "maxLogs = 1000"

definition addLog :: "env \<Rightarrow> int \<Rightarrow> log_msg \<Rightarrow> string \<Rightarrow> server \<Rightarrow> server" where
  "addLog env now msg level st =
     (let ls = logs st @ [\<lparr> l_timestamp = now, l_level = level, l_message = msg \<rparr>];
          ls' = (if length ls > maxLogs then drop (length ls - maxLogs) ls else ls)
      in broadcastToStatusClients env (FLog level msg) (st \<lparr> logs := ls' \<rparr>))"

definition clearTimeout :: "nat \<Rightarrow> server \<Rightarrow> server" where
  "clearTimeout h st = st \<lparr> timers := AList.delete h (timers st) \<rparr>"

text \<open>\<open>if (!res.headersSent) { res.writeHead(code, ...); res.end(...) }\<close>.\<close>

definition reply_if_unsent :: "conn \<Rightarrow> int \<Rightarrow> string \<Rightarrow> server \<Rightarrow> server" where
  "reply_if_unsent c code e st =
     (if headersSent (sinks st c) then st
      else st \<lparr> sinks := (sinks st)(c := write_error code e (sinks st c)) \<rparr>)"

subsection \<open>Capturing a request\<close>

text \<open>The \<open>data\<close> handler of \<open>collectRequestData\<close>: the promise is rejected at the first
  chunk after which \<open>body.length\<close> exceeds the maximum; a later \<open>resolve\<close> has no effect.\<close>

fun accumulate :: "nat \<Rightarrow> string \<Rightarrow> req_event list \<Rightarrow> capture_error + string" where
  "accumulate mx b [] = Inr b"
| "accumulate mx b (Data chunk # es) =
     (if length (b @ chunk) > mx then Inl BodyTooLarge else accumulate mx (b @ chunk) es)"
| "accumulate mx b (StreamError # es) = Inl RequestStreamError"

text \<open>\<open>collectRequestData(req)\<close>, settled. A record that was forwarded before has no
  \<open>req\<close> field: \<open>req.on\<close> then throws inside the executor, which rejects.\<close>

definition collectRequestData :: "config \<Rightarrow> http_req option \<Rightarrow> capture_error + request_data" where
  "collectRequestData cfg r =
     (case r of
        None \<Rightarrow> Inl NoRequestObject
      | Some req \<Rightarrow>
          (case accumulate (maxRequestSize cfg) [] (req_events req) of
             Inl e \<Rightarrow> Inl e
           | Inr b \<Rightarrow>
               if \<not> validateInput (HStr (req_method req)) \<or> \<not> validateInput (HStr (req_url req))
               then Inl InvalidMethodOrUrl
               else Inr \<lparr> method = req_method req, url = req_url req,
                          headers = sanitizeHeaders (req_headers req), body = b \<rparr>))"

subsection \<open>Forwarding and queueing\<close>

text \<open>\<open>handleRequestWithClient\<close> is \<open>async\<close>: it runs up to \<open>await collectRequestData\<close>
  when called and the rest once the promise has settled, which is when the body of the
  request has ended or the capture has failed. The two halves are the two functions below;
  the second takes the time at which it runs and the \<open>startTime\<close> the first has read. A
  request arriving over HTTP runs them back to back, its body being known.\<close>

definition handleRequestWithClient_begin :: "env \<Rightarrow> int \<Rightarrow> slug \<Rightarrow> server \<Rightarrow> request_id \<times> server" where
  "handleRequestWithClient_begin env now sl st =
     (let requestId = uuid_next st;
          st1 = st \<lparr> uuid_next := Suc requestId \<rparr>;
          st2 = addLog env now (HandlingRequest requestId sl) ''http'' st1
      in (requestId, st2 \<lparr> totalRequests := totalRequests st2 + 1 \<rparr>))"

definition handleRequestWithClient_resume ::
  "env \<Rightarrow> int \<Rightarrow> int \<Rightarrow> request_id \<Rightarrow> http_req option \<Rightarrow> conn \<Rightarrow> slug \<Rightarrow> ws \<Rightarrow> server \<Rightarrow> server" where
  "handleRequestWithClient_resume env now startTime requestId r c sl client st =
     (case collectRequestData (securityConfig st) r of
        Inl e \<Rightarrow>
          (let st1 = addLog env now (ErrorHandlingRequest requestId sl e) ''error'' st;
               st2 = st1 \<lparr> failedResponses := failedResponses st1 + 1 \<rparr>
           in reply_if_unsent c 500 ''Internal server error'' st2)
      | Inr requestData \<Rightarrow>
          (case ws_send env client (FRequest sl requestId requestData) st of
             None \<Rightarrow>
               (let st1 = addLog env now (ErrorSendingRequest requestId) ''error'' st;
                    st2 = st1 \<lparr> failedResponses := failedResponses st1 + 1 \<rparr>
                in reply_if_unsent c 500 ''Failed to send request to WebSocket client'' st2)
           | Some st1 \<Rightarrow>
               (let st2 = addLog env now (SentRequest requestId sl) ''ws'' st1;
                    st3 = st2 \<lparr> timers := AList.update requestId
                                  (Timer ForwardDeadline c (now + 150000)) (timers st2) \<rparr>
                in st3 \<lparr> pendingRequests := AList.update requestId
                            \<lparr> p_res = c, p_timeout = requestId, p_slug = sl, p_req = None,
                              p_timestamp = now, p_startTime = Some startTime \<rparr>
                            (pendingRequests st3) \<rparr>)))"

definition handleRequestWithClient :: "env \<Rightarrow> int \<Rightarrow> http_req \<Rightarrow> conn \<Rightarrow> slug \<Rightarrow> ws \<Rightarrow> server \<Rightarrow> server" where
  "handleRequestWithClient env now req c sl client st =
     (case handleRequestWithClient_begin env now sl st of
        (requestId, st1) \<Rightarrow>
          handleRequestWithClient_resume env now now requestId (Some req) c sl client st1)"

definition handleRequestWithoutClient :: "int \<Rightarrow> http_req \<Rightarrow> conn \<Rightarrow> slug \<Rightarrow> server \<Rightarrow> server" where
  "handleRequestWithoutClient now req c sl st =
     (let requestId = uuid_next st;
          st1 = st \<lparr> uuid_next := Suc requestId \<rparr>;
          st2 = st1 \<lparr> timers := AList.update requestId
                         (Timer QueueDeadline c (now + 30000)) (timers st1) \<rparr>
      in st2 \<lparr> pendingRequests := AList.update requestId
                  \<lparr> p_res = c, p_timeout = requestId, p_slug = sl, p_req = Some req,
                    p_timestamp = now, p_startTime = None \<rparr>
                  (pendingRequests st2) \<rparr>)"

text \<open>The callbacks of the two \<open>setTimeout\<close> calls, run when the timer with handle \<open>h\<close>
  fires.\<close>

definition timerFires :: "env \<Rightarrow> int \<Rightarrow> nat \<Rightarrow> server \<Rightarrow> server" where
  "timerFires env now h st =
     (case map_of (timers st) h of
        None \<Rightarrow> st
      | Some (Timer ForwardDeadline c due) \<Rightarrow>
          (let st0 = clearTimeout h st;
               st1 = addLog env now (RequestTimedOut h) ''error'' st0;
               st2 = st1 \<lparr> failedResponses := failedResponses st1 + 1 \<rparr>;
               st3 = reply_if_unsent c 504 ''Request timeout'' st2
           in st3 \<lparr> pendingRequests := AList.delete h (pendingRequests st3) \<rparr>)
      | Some (Timer QueueDeadline c due) \<Rightarrow>
          (let st0 = clearTimeout h st;
               st1 = reply_if_unsent c 504 ''No WebSocket client connected within timeout'' st0
           in st1 \<lparr> pendingRequests := AList.delete h (pendingRequests st1) \<rparr>))"

subsection \<open>The HTTP entry point\<close>

definition join_comma :: "string list \<Rightarrow> string" where
  "join_comma xs = (case xs of [] \<Rightarrow> [] | y # ys \<Rightarrow> foldl (\<lambda>acc x. acc @ '', '' @ x) y ys)"

definition applySecurityHeaders :: "config \<Rightarrow> sink \<Rightarrow> sink" where
  "applySecurityHeaders cfg s =
     s \<lparr> res_headers :=
           foldl (\<lambda>hs kv. setHeader (fst kv) (snd kv) hs) (res_headers s)
             ([(''X-Content-Type-Options'', ''nosniff''),
               (''X-Frame-Options'', ''DENY''),
               (''X-XSS-Protection'', ''1; mode=block''),
               (''Referrer-Policy'', ''strict-origin-when-cross-origin''),
               (''Permissions-Policy'', ''geolocation=(), microphone=(), camera=()'')] @
              (if enableCORS cfg
               then [(''Access-Control-Allow-Origin'',
                        if ''*'' \<in> set (allowedOrigins cfg) then ''*''
                        else join_comma (allowedOrigins cfg)),
                     (''Access-Control-Allow-Methods'', ''GET, POST, PUT, DELETE, OPTIONS''),
                     (''Access-Control-Allow-Headers'', ''Content-Type, Authorization'')]
               else [])) \<rparr>"

text \<open>The response object that \<open>createServer\<close> hands to the callback, after
  \<open>applySecurityHeaders(res)\<close>.\<close>

definition new_response :: "config \<Rightarrow> http_req \<Rightarrow> sink" where
  "new_response cfg req =
     applySecurityHeaders cfg (fresh_sink \<lparr> hasBody := req_method req \<noteq> ''HEAD'' \<rparr>)"

text \<open>The handlers of \<open>/auth/login\<close>, \<open>/status\<close> and \<open>/api/\<close> are not embedded: for
  these paths the result is the route taken and the state at that point.\<close>

datatype route = AuthLogin | StatusPage | ApiEndpoint

definition is_upgrade :: "http_req \<Rightarrow> bool" where
  "is_upgrade req = (map_of (req_headers req) ''upgrade'' = Some (HStr ''websocket''))"

definition reject :: "conn \<Rightarrow> int \<Rightarrow> string \<Rightarrow> server \<Rightarrow> server" where
  "reject c code e st = st \<lparr> sinks := (sinks st)(c := write_error code e (sinks st c)) \<rparr>"

definition reserved_slug_message :: string where
  \<open>reserved_slug_message = ''The slug "status" is reserved for the server status page''\<close>

text \<open>The callback of \<open>createServer\<close>. The response object is new with every request.
  The test \<open>slug === 'status'\<close> is kept although \<open>/status\<close> was routed before it.\<close>

definition httpRequest :: "env \<Rightarrow> int \<Rightarrow> http_req \<Rightarrow> conn \<Rightarrow> server \<Rightarrow> (route \<times> server) + server" where
  "httpRequest env now req c st0 =
     (let cfg = securityConfig st0;
          clientIP = req_ip req;
          st1 = st0 \<lparr> sinks := (sinks st0)(c := new_response cfg req) \<rparr>;
          gate = (if enableRateLimit cfg
                  then checkRateLimit cfg now clientIP (is_upgrade req) (rateLimitTracker st1)
                  else (True, rateLimitTracker st1));
          st2 = st1 \<lparr> rateLimitTracker := snd gate \<rparr>
      in if enableRateLimit cfg \<and> \<not> fst gate
         then Inr (reject c 429 ''Rate limit exceeded''
                     (addLog env now (RateLimitExceeded clientIP) ''security'' st2))
         else (case req_pathname req of
            None \<Rightarrow>
              Inr (reply_if_unsent c 500 ''Internal server error''
                     (addLog env now HttpRequestError ''error'' st2))
          | Some pathname \<Rightarrow>
              if pathname = ''/auth/login'' then Inl (AuthLogin, st2)
              else if pathname = ''/status'' then Inl (StatusPage, st2)
              else if take 5 pathname = ''/api/'' then Inl (ApiEndpoint, st2)
              else (let sl = drop 1 pathname
                    in if sl = [] then Inr (reject c 400 ''Slug required'' st2)
                       else if \<not> validateSlug sl
                       then Inr (reject c 400 ''Invalid slug format''
                                   (addLog env now (InvalidSlugAttempt sl clientIP) ''security'' st2))
                       else if sl = ''status''
                       then Inr (reject c 400 reserved_slug_message st2)
                       else if slugWhitelist cfg \<noteq> [] \<and> sl \<notin> set (slugWhitelist cfg)
                       then Inr (reject c 403 ''Slug not authorized''
                                   (addLog env now (UnauthorizedSlugAttempt sl clientIP) ''security'' st2))
                       else (case map_of (clients st2) sl of
                               None \<Rightarrow> Inr (handleRequestWithoutClient now req c sl st2)
                             | Some client \<Rightarrow>
                                 if readyState env client = 1
                                 then Inr (handleRequestWithClient env now req c sl client st2)
                                 else Inr (handleRequestWithoutClient now req c sl st2)))))"

subsection \<open>Responses from handlers\<close>

text \<open>\<open>Object.entries(response.headers).forEach(([key, value]) => res.setHeader(key, value))\<close>.
  \<open>Inl\<close> is the sink as it is when \<open>setHeader\<close> throws: the headers set before stay set.\<close>

fun setHeaders :: "env \<Rightarrow> (string \<times> string) list \<Rightarrow> sink \<Rightarrow> sink + sink" where
  "setHeaders env [] s = Inr s"
| "setHeaders env (kv # kvs) s =
     (if headersSent s \<or> setHeaderThrows env (fst kv) (snd kv) then Inl s
      else setHeaders env kvs (s \<lparr> res_headers := setHeader (fst kv) (snd kv) (res_headers s) \<rparr>))"

text \<open>\<open>response.statusCode || 200\<close>: a zero is falsy.\<close>

definition status_or_200 :: "response \<Rightarrow> int" where
  "status_or_200 r = (case statusCode r of None \<Rightarrow> 200 | Some n \<Rightarrow> if n = 0 then 200 else n)"

text \<open>\<open>statusCode |= 0\<close>, the first thing \<open>writeHead\<close> does to its argument: the
  integer is reduced to a signed 32-bit one.\<close>

definition to_int32 :: "int \<Rightarrow> int" where
  "to_int32 n = (n + 2147483648) mod 4294967296 - 2147483648"

text \<open>The \<open>try\<close> block of \<open>handleClientResponse\<close> on the sink. \<open>writeHead\<close> throws on a
  response whose head is out already and on a status that, as a 32-bit integer, is
  outside 100..999; it clears \<open>hasBody\<close> for a status 1xx, 204 or 304.
  \<open>res.end(response.body || '')\<close> sends the body only if \<open>hasBody\<close> holds. What a
  header of the response that frames the message (\<open>Content-Length\<close>,
  \<open>Transfer-Encoding\<close>, \<open>Trailer\<close>, \<open>Connection\<close>) does to the reply is not part of the
  model.\<close>

definition deliver :: "env \<Rightarrow> response \<Rightarrow> sink \<Rightarrow> sink + sink" where
  "deliver env r s =
     (case setHeaders env (case resp_headers r of None \<Rightarrow> [] | Some hs \<Rightarrow> hs) s of
        Inl s' \<Rightarrow> Inl s'
      | Inr s1 \<Rightarrow>
          if headersSent s1 \<or> to_int32 (status_or_200 r) < 100 \<or> to_int32 (status_or_200 r) > 999
          then Inl s1
          else Inr (s1 \<lparr> res_status := Some (to_int32 (status_or_200 r)),
                         res_body := Some (Raw (if hasBody s1 \<and> \<not> no_body_status (to_int32 (status_or_200 r))
                                                then (case resp_body r of None \<Rightarrow> [] | Some b \<Rightarrow> b)
                                                else [])),
                         hasBody := hasBody s1 \<and> \<not> no_body_status (to_int32 (status_or_200 r)) \<rparr>))"

definition handleClientResponse :: "env \<Rightarrow> int \<Rightarrow> slug \<Rightarrow> request_id \<Rightarrow> response \<Rightarrow> server \<Rightarrow> server" where
  "handleClientResponse env now sl requestId r st =
     (case map_of (pendingRequests st) requestId of
        None \<Rightarrow> addLog env now (NoPendingRequestFound requestId) ''error'' st
      | Some pendingRequest \<Rightarrow>
          (let st1 = addLog env now (ProcessingResponse requestId sl) ''ws'' st;
               responseTime = map_option (\<lambda>t. now - t) (p_startTime pendingRequest);
               rts = responseTimes st1 @ [responseTime];
               st2 = st1 \<lparr> responseTimes := (if length rts > 100 then drop (length rts - 100) rts else rts) \<rparr>;
               st3 = clearTimeout (p_timeout pendingRequest) st2;
               st4 = st3 \<lparr> pendingRequests := AList.delete requestId (pendingRequests st3) \<rparr>;
               c = p_res pendingRequest
           in case deliver env r (sinks st4 c) of
                Inr s \<Rightarrow>
                  (let st5 = st4 \<lparr> sinks := (sinks st4)(c := s) \<rparr>;
                       st6 = addLog env now (ResponseSent requestId (status_or_200 r)) ''http'' st5
                   in st6 \<lparr> successfulResponses := successfulResponses st6 + 1 \<rparr>)
              | Inl s \<Rightarrow>
                  (let st5 = st4 \<lparr> sinks := (sinks st4)(c := s) \<rparr>;
                       st6 = addLog env now (ErrorSendingResponse requestId) ''error'' st5;
                       st7 = st6 \<lparr> failedResponses := failedResponses st6 + 1 \<rparr>
                   in reply_if_unsent c 500 ''Failed to send response'' st7)))"

subsection \<open>Sessions\<close>

fun reject_entries :: "slug \<Rightarrow> (request_id \<times> pending_request) list \<Rightarrow> server \<Rightarrow> server" where
  "reject_entries sl [] st = st"
| "reject_entries sl (e # es) st =
     (if p_slug (snd e) = sl
      then (let st1 = reply_if_unsent (p_res (snd e)) 503
                        ''No active WebSocket client for this slug'' st;
                st2 = clearTimeout (p_timeout (snd e)) st1
            in reject_entries sl es
                 (st2 \<lparr> pendingRequests := AList.delete (fst e) (pendingRequests st2) \<rparr>))
      else reject_entries sl es st)"

definition rejectPendingRequestsForSlug :: "slug \<Rightarrow> server \<Rightarrow> server" where
  "rejectPendingRequestsForSlug sl st = reject_entries sl (pendingRequests st) st"

definition removeClient :: "ws \<Rightarrow> server \<Rightarrow> server" where
  "removeClient w st =
     (if w \<in> set (statusClients st)
      then st \<lparr> statusClients := removeAll w (statusClients st) \<rparr>
      else (case find (\<lambda>e. snd e = w) (clients st) of
              None \<Rightarrow> st
            | Some e \<Rightarrow>
                rejectPendingRequestsForSlug (fst e)
                  (st \<lparr> clients := AList.delete (fst e) (clients st) \<rparr>)))"

text \<open>The loop of \<open>processPendingRequestsForSlug\<close> runs, for every record of the slug,
  the first half of \<open>handleRequestWithClient\<close> and deletes the record. The call is not
  awaited: it stays in \<open>awaiting\<close> until its promise settles, and none of the second
  halves runs before the loop and \<open>registerClient\<close> are through.\<close>

fun drain_started :: "env \<Rightarrow> int \<Rightarrow> slug \<Rightarrow> ws \<Rightarrow> (request_id \<times> pending_request) list \<Rightarrow> server \<Rightarrow> server" where
  "drain_started env now sl client [] st = st"
| "drain_started env now sl client (e # es) st =
     (if p_slug (snd e) = sl
      then (let st1 = clearTimeout (p_timeout (snd e)) st;
                started = handleRequestWithClient_begin env now sl st1;
                st2 = snd started;
                st3 = st2 \<lparr> awaiting := awaiting st2 @
                              [(fst started,
                                \<lparr> s_req = p_req (snd e), s_res = p_res (snd e), s_slug = sl,
                                  s_client = client, s_startTime = now \<rparr>)] \<rparr>;
                st4 = st3 \<lparr> pendingRequests := AList.delete (fst e) (pendingRequests st3) \<rparr>
            in drain_started env now sl client es st4)
      else drain_started env now sl client es st)"

definition processPendingRequestsForSlug :: "env \<Rightarrow> int \<Rightarrow> slug \<Rightarrow> ws \<Rightarrow> server \<Rightarrow> server" where
  "processPendingRequestsForSlug env now sl client st =
     drain_started env now sl client (pendingRequests st) st"

definition registerClient :: "env \<Rightarrow> int \<Rightarrow> ws \<Rightarrow> slug \<Rightarrow> server \<Rightarrow> server" where
  "registerClient env now w sl st =
     (let st1 = (case map_of (clients st) sl of
                   None \<Rightarrow> st
                 | Some existingClient \<Rightarrow>
                     if readyState env existingClient = 1
                     then st \<lparr> closes := closes st @ [(existingClient, 1000, ''Replaced by new client'')] \<rparr>
                     else st);
          st2 = st1 \<lparr> clients := AList.update sl w (clients st1) \<rparr>;
          st3 = processPendingRequestsForSlug env now sl w st2
      in try_send env w (FRegistered sl) st3)"


definition sendStatusUpdate :: "env \<Rightarrow> ws \<Rightarrow> server \<Rightarrow> server" where
  "sendStatusUpdate env w st =
     (case ws_send env w (FStatus (map fst (clients st)) (length (pendingRequests st))) st of
        None \<Rightarrow> st
      | Some st1 \<Rightarrow>
          try_send env w
            (FStats (totalRequests st1) (successfulResponses st1) (failedResponses st1)) st1)"

definition truthy :: "string option \<Rightarrow> bool" where
  "truthy x = (x \<noteq> None \<and> x \<noteq> Some [])"

definition handleWebSocketMessage :: "env \<Rightarrow> int \<Rightarrow> ws \<Rightarrow> message \<Rightarrow> server \<Rightarrow> server" where
  "handleWebSocketMessage env now w m st =
     (if m_type m = Some ''status-client''
      then sendStatusUpdate env w
             (st \<lparr> statusClients := (if w \<in> set (statusClients st) then statusClients st
                                      else statusClients st @ [w]) \<rparr>)
      else if truthy (m_slug m) \<and> m_requestId m = None
      then (if m_slug m = Some ''status''
            then (case ws_send env w (FError reserved_slug_message) st of
                    Some st1 \<Rightarrow> st1
                  | None \<Rightarrow> try_send env w (FError ''Message processing failed'') st)
            else registerClient env now w (the (m_slug m)) st)
      else if truthy (m_slug m) \<and> m_requestId m \<noteq> None \<and> m_response m \<noteq> None
      then handleClientResponse env now (the (m_slug m)) (the (m_requestId m)) (the (m_response m)) st
      else try_send env w (FError ''Invalid message format'') st)"

subsection \<open>Periodic cleanup\<close>

fun clean_entries :: "int \<Rightarrow> (request_id \<times> pending_request) list \<Rightarrow> server \<Rightarrow> server" where
  "clean_entries staleCutoff [] st = st"
| "clean_entries staleCutoff (e # es) st =
     (if p_timestamp (snd e) < staleCutoff
      then (let st1 = clearTimeout (p_timeout (snd e)) st
            in clean_entries staleCutoff es
                 (st1 \<lparr> pendingRequests := AList.delete (fst e) (pendingRequests st1) \<rparr>))
      else clean_entries staleCutoff es st)"

text \<open>The sweeps of \<open>performMemoryCleanup\<close>: the number of items cleaned and the state
  after the last sweep.\<close>

definition cleanup_sweeps :: "env \<Rightarrow> int \<Rightarrow> server \<Rightarrow> nat \<times> server" where
  "cleanup_sweeps env now st =
     (let logCutoff = now - 7 * 24 * 60 * 60 * 1000;
          logs' = filter (\<lambda>l. l_timestamp l > logCutoff) (logs st);
          hourlyCutoff = now - 30 * 24 * 60 * 60 * 1000;
          hourly' = filter (\<lambda>h. \<not> fst h < hourlyCutoff) (hourlyStats st);
          daily' = filter (\<lambda>d. \<not> fst d < hourlyCutoff) (dailyStats st);
          status' = filter (\<lambda>w. readyState env w = 1) (statusClients st);
          st4 = st \<lparr> logs := logs', hourlyStats := hourly', dailyStats := daily',
                     statusClients := status' \<rparr>;
          staleCutoff = now - 300000;
          st5 = clean_entries staleCutoff (pendingRequests st) st4;
          cleaned = (length (logs st) - length logs')
                    + (length (hourlyStats st) - length hourly')
                    + (length (dailyStats st) - length daily')
                    + (length (statusClients st) - length status')
                    + length (filter (\<lambda>e. p_timestamp (snd e) < staleCutoff) (pendingRequests st))
      in (cleaned, st5))"

definition performMemoryCleanup :: "env \<Rightarrow> int \<Rightarrow> server \<Rightarrow> server" where
  "performMemoryCleanup env now st =
     (case cleanup_sweeps env now st of
        (cleaned, st5) \<Rightarrow>
          if cleaned > 0 then addLog env now (MemoryCleanup cleaned) ''server'' st5 else st5)"

subsection \<open>Runs and fixtures for the statements below\<close>

text \<open>The request timestamps the tracker holds for an address.\<close>

definition requests_of :: "rate_map \<Rightarrow> string \<Rightarrow> int list" where
  "requests_of rl ip = (case map_of rl ip of None \<Rightarrow> [] | Some tr \<Rightarrow> requests tr)"

definition connections_of :: "rate_map \<Rightarrow> string \<Rightarrow> int list" where
  "connections_of rl ip = (case map_of rl ip of None \<Rightarrow> [] | Some tr \<Rightarrow> connections tr)"

text \<open>The state after a request, whether it was handled or routed elsewhere, and whether
  the request was answered with 429. None of the handlers outside the embedding writes
  429.\<close>

definition after_request :: "(route \<times> server) + server \<Rightarrow> server" where
  "after_request r = (case r of Inl x \<Rightarrow> snd x | Inr st \<Rightarrow> st)"

definition answered_429 :: "(route \<times> server) + server \<Rightarrow> conn \<Rightarrow> bool" where
  "answered_429 r c = (case r of Inl x \<Rightarrow> False | Inr st \<Rightarrow> res_status (sinks st c) = Some 429)"

text \<open>A run of HTTP requests, each with the environment and the time of its arrival and
  its connection, through \<open>httpRequest\<close>: for each request, whether it was answered with
  429. After a request for \<open>/auth/login\<close>, \<open>/status\<close> or \<open>/api/\<close> the run goes on from the
  state at the routing: the handlers of these paths touch neither the tracker nor the
  configuration.\<close>

type_synonym arrival = "env \<times> int \<times> http_req \<times> conn"

definition arrival_time :: "arrival \<Rightarrow> int" where
  "arrival_time a = fst (snd a)"

definition arrival_req :: "arrival \<Rightarrow> http_req" where
  "arrival_req a = fst (snd (snd a))"

fun serve :: "arrival list \<Rightarrow> server \<Rightarrow> bool list" where
  "serve [] st = []"
| "serve (a # as) st =
     answered_429 (httpRequest (fst a) (arrival_time a) (arrival_req a) (snd (snd (snd a))) st)
       (snd (snd (snd a))) #
     serve as (after_request (httpRequest (fst a) (arrival_time a) (arrival_req a) (snd (snd (snd a))) st))"

text \<open>The sliding window in the words of the claim, as a reference to compare the gate
  with. \<open>H\<close> is every request recorded so far and \<open>C\<close> every admitted request with
  \<open>upgrade: websocket\<close>, each with its time and address, and nothing is ever dropped from
  them. \<open>in_window t ip H\<close> counts the entries of the address within the 60 seconds that
  end at \<open>t\<close>. A request is refused when the count of recorded requests has reached the
  maximum; otherwise it is recorded, and admitted unless it carries \<open>upgrade: websocket\<close>
  and the count of admitted such requests has reached the maximum of connections.\<close>

definition in_window :: "int \<Rightarrow> string \<Rightarrow> (int \<times> string) list \<Rightarrow> nat" where
  "in_window t ip H = length (filter (\<lambda>e. snd e = ip \<and> t - 60000 < fst e) H)"

fun window_admits :: "config \<Rightarrow> (int \<times> string \<times> bool) list \<Rightarrow> (int \<times> string) list \<Rightarrow> (int \<times> string) list \<Rightarrow> bool list" where
  "window_admits cfg [] H C = []"
| "window_admits cfg (r # rs) H C =
     (if in_window (fst r) (fst (snd r)) H \<ge> maxRequestsPerMinute cfg
      then False # window_admits cfg rs H C
      else if snd (snd r)
      then (if in_window (fst r) (fst (snd r)) C \<ge> maxConnectionsPerIP cfg
            then False # window_admits cfg rs (H @ [(fst r, fst (snd r))]) C
            else True # window_admits cfg rs (H @ [(fst r, fst (snd r))]) (C @ [(fst r, fst (snd r))]))
      else True # window_admits cfg rs (H @ [(fst r, fst (snd r))]) C)"

text \<open>An environment in which every socket is open and nothing throws, and a request
  without headers and body.\<close>

definition env_open :: env where
  "env_open = \<lparr> readyState = (\<lambda>_. 1), sendThrows = (\<lambda>_. False), setHeaderThrows = (\<lambda>_ _. False) \<rparr>"

definition get_request :: "string \<Rightarrow> string \<Rightarrow> http_req" where
  "get_request ip path =
     \<lparr> req_ip = ip, req_method = ''GET'', req_url = path, req_pathname = Some path,
       req_headers = [], req_events = [] \<rparr>"

text \<open>A server with a handler bound to \<open>svc-a\<close>; a request with a one-chunk body; a
  server holding one queued request.\<close>

definition bound_server :: server where
  "bound_server = registerClient env_open 0 1 ''svc-a'' (initial_server default_config)"

definition post_request :: "string \<Rightarrow> string \<Rightarrow> string \<Rightarrow> http_req" where
  "post_request ip path b = (get_request ip path) \<lparr> req_method := ''POST'', req_events := [Data b] \<rparr>"

definition queued_once :: server where
  "queued_once = after_request (httpRequest env_open 0 (get_request ''10.0.0.1'' ''/svc-a'') 7
                   (initial_server default_config))"

text \<open>A response frame as a handler sends it, and a server with one request forwarded to
  the handler of \<open>svc-a\<close>.\<close>

definition response_frame :: "slug \<Rightarrow> request_id \<Rightarrow> response \<Rightarrow> message" where
  "response_frame sl rid r =
     \<lparr> m_type = None, m_slug = Some sl, m_requestId = Some rid, m_response = Some r \<rparr>"

definition forwarded_once :: server where
  "forwarded_once = after_request (httpRequest env_open 5 (get_request ''10.0.0.1'' ''/svc-a'') 7 bound_server)"

text \<open>An environment in which every socket is closing, and the server after a request
  for \<open>svc-a\<close> arrived while the bound socket was closing.\<close>

definition env_closing :: env where
  "env_closing = env_open \<lparr> readyState := (\<lambda>_. 2) \<rparr>"

definition queued_behind_closing :: server where
  "queued_behind_closing =
     after_request (httpRequest env_closing 5 (get_request ''10.0.0.1'' ''/svc-a'') 7 bound_server)"

text \<open>Every id in the pending table was drawn from \<open>uuidv4()\<close> before, so the next
  draw is not in the table.\<close>

definition fresh_ids :: "server \<Rightarrow> bool" where
  "fresh_ids st = list_all (\<lambda>e. fst e < uuid_next st) (pendingRequests st)"

text \<open>The requests handed to a socket, in the order of the \<open>send\<close> calls; what
  \<open>collectRequestData\<close> yields for a retained request, as a list; a registration frame; an
  environment in which every \<open>send\<close> throws; a server holding two queued requests.\<close>

definition forwarded_to :: "ws \<Rightarrow> server \<Rightarrow> request_data list" where
  "forwarded_to w st =
     concat (map (\<lambda>x. case snd x of
                         FRequest s i d \<Rightarrow> if fst x = w then [d] else []
                       | _ \<Rightarrow> []) (outbox st))"


definition registration_frame :: "slug \<Rightarrow> message" where
  "registration_frame sl = \<lparr> m_type = None, m_slug = Some sl, m_requestId = None, m_response = None \<rparr>"


definition queued_twice :: server where
  "queued_twice =
     after_request (httpRequest env_open 6 (post_request ''10.0.0.1'' ''/svc-a'' ''second'') 8 queued_once)"

text \<open>The server after a handler has registered for \<open>svc-a\<close> while two requests were
  queued.\<close>

definition drained_twice :: server where
  "drained_twice = handleWebSocketMessage env_open 10 1 (registration_frame ''svc-a'') queued_twice"

text \<open>A server with a \<open>HEAD\<close> request forwarded to the handler of \<open>svc-a\<close>.\<close>

definition forwarded_head :: server where
  "forwarded_head =
     after_request (httpRequest env_open 5 ((get_request ''10.0.0.1'' ''/svc-a'') \<lparr> req_method := ''HEAD'' \<rparr>)
                      7 bound_server)"

text \<open>The names of the headers by which Node frames a message.\<close>

definition framing_headers :: "string list" where
  "framing_headers = [''content-length'', ''transfer-encoding'', ''trailer'', ''connection'']"

text \<open>What the gate reads of an arrival: its time, its address, and whether it carries
  \<open>upgrade: websocket\<close>. Then a request that carries this header, a configuration that
  admits two requests per minute, four requests of one address on four routes, and eleven
  requests with \<open>upgrade: websocket\<close> one millisecond apart.\<close>

definition gate_key :: "arrival \<Rightarrow> int \<times> string \<times> bool" where
  "gate_key a = (arrival_time a, req_ip (arrival_req a), is_upgrade (arrival_req a))"

definition upgrade_request :: "string \<Rightarrow> string \<Rightarrow> http_req" where
  "upgrade_request ip path = (get_request ip path) \<lparr> req_headers := [(''upgrade'', HStr ''websocket'')] \<rparr>"

definition limit_two :: config where
  "limit_two = default_config \<lparr> maxRequestsPerMinute := 2 \<rparr>"

definition four_arrivals :: "arrival list" where
  "four_arrivals =
     [(env_open, 0, get_request ''10.0.0.1'' ''/svc-a'', 1),
      (env_open, 59999, get_request ''10.0.0.1'' ''/status'', 2),
      (env_open, 60000, get_request ''10.0.0.1'' ''/api/stats'', 3),
      (env_open, 60001, get_request ''10.0.0.1'' ''/svc-b'', 4)]"

definition upgrade_burst :: "arrival list" where
  "upgrade_burst =
     map (\<lambda>i. (env_open, int i, upgrade_request ''10.0.0.1'' ''/svc-a'', i))
       [0, 1, 2, 3, 4, 5, 6, 7, 8, 9, 10]"

section \<open>Properties\<close>

subsection \<open>Frame lemmas\<close>

lemma broadcast_frame:
  "pendingRequests (foldl (broadcast_step env f) st ws) = pendingRequests st
   \<and> clients (foldl (broadcast_step env f) st ws) = clients st
   \<and> totalRequests (foldl (broadcast_step env f) st ws) = totalRequests st
   \<and> successfulResponses (foldl (broadcast_step env f) st ws) = successfulResponses st
   \<and> failedResponses (foldl (broadcast_step env f) st ws) = failedResponses st
   \<and> responseTimes (foldl (broadcast_step env f) st ws) = responseTimes st
   \<and> securityConfig (foldl (broadcast_step env f) st ws) = securityConfig st
   \<and> rateLimitTracker (foldl (broadcast_step env f) st ws) = rateLimitTracker st
   \<and> sinks (foldl (broadcast_step env f) st ws) = sinks st
   \<and> timers (foldl (broadcast_step env f) st ws) = timers st
   \<and> closes (foldl (broadcast_step env f) st ws) = closes st
   \<and> uuid_next (foldl (broadcast_step env f) st ws) = uuid_next st
   \<and> logs (foldl (broadcast_step env f) st ws) = logs st
   \<and> awaiting (foldl (broadcast_step env f) st ws) = awaiting st"
  by (induction ws arbitrary: st) (simp_all add: broadcast_step_def ws_send_def)

lemma addLog_frame [simp]:
  "pendingRequests (addLog env now m l st) = pendingRequests st"
  "clients (addLog env now m l st) = clients st"
  "totalRequests (addLog env now m l st) = totalRequests st"
  "successfulResponses (addLog env now m l st) = successfulResponses st"
  "failedResponses (addLog env now m l st) = failedResponses st"
  "responseTimes (addLog env now m l st) = responseTimes st"
  "securityConfig (addLog env now m l st) = securityConfig st"
  "rateLimitTracker (addLog env now m l st) = rateLimitTracker st"
  "sinks (addLog env now m l st) = sinks st"
  "timers (addLog env now m l st) = timers st"
  "closes (addLog env now m l st) = closes st"
  "uuid_next (addLog env now m l st) = uuid_next st"
  "awaiting (addLog env now m l st) = awaiting st"
  by (simp_all add: addLog_def broadcastToStatusClients_def broadcast_frame Let_def)

lemma reply_if_unsent_frame [simp]:
  "pendingRequests (reply_if_unsent c code e st) = pendingRequests st"
  "clients (reply_if_unsent c code e st) = clients st"
  "totalRequests (reply_if_unsent c code e st) = totalRequests st"
  "successfulResponses (reply_if_unsent c code e st) = successfulResponses st"
  "failedResponses (reply_if_unsent c code e st) = failedResponses st"
  "securityConfig (reply_if_unsent c code e st) = securityConfig st"
  "rateLimitTracker (reply_if_unsent c code e st) = rateLimitTracker st"
  "timers (reply_if_unsent c code e st) = timers st"
  "uuid_next (reply_if_unsent c code e st) = uuid_next st"
  "outbox (reply_if_unsent c code e st) = outbox st"
  "awaiting (reply_if_unsent c code e st) = awaiting st"
  by (simp_all add: reply_if_unsent_def)

lemma reply_if_unsent_status:
  "res_status (sinks (reply_if_unsent c code e st) c') =
     (if c' = c \<and> res_status (sinks st c) = None then Some code else res_status (sinks st c'))"
  by (simp add: reply_if_unsent_def headersSent_def write_error_def)

lemma hrwc_uuid:
  "uuid_next (handleRequestWithClient env now req c sl client st) = Suc (uuid_next st)"
  by (simp add: handleRequestWithClient_def handleRequestWithClient_begin_def
       handleRequestWithClient_resume_def ws_send_def Let_def split: sum.splits)

lemma hrwc_status:
  "res_status (sinks (handleRequestWithClient env now req c sl client st) c') =
     res_status (sinks st c') \<or>
   res_status (sinks (handleRequestWithClient env now req c sl client st) c') = Some 500"
  by (simp add: handleRequestWithClient_def handleRequestWithClient_begin_def
       handleRequestWithClient_resume_def ws_send_def Let_def reply_if_unsent_status
       split: sum.splits)

lemma hrwc_cfg:
  "securityConfig (handleRequestWithClient env now req c sl client st) = securityConfig st"
  "rateLimitTracker (handleRequestWithClient env now req c sl client st) = rateLimitTracker st"
  by (simp_all add: handleRequestWithClient_def handleRequestWithClient_begin_def
       handleRequestWithClient_resume_def ws_send_def Let_def split: sum.splits)

lemma hrwoc_facts:
  "uuid_next (handleRequestWithoutClient now req c sl st) = Suc (uuid_next st)"
  "sinks (handleRequestWithoutClient now req c sl st) = sinks st"
  "securityConfig (handleRequestWithoutClient now req c sl st) = securityConfig st"
  "rateLimitTracker (handleRequestWithoutClient now req c sl st) = rateLimitTracker st"
  by (simp_all add: handleRequestWithoutClient_def Let_def)

lemma fresh_status: "res_status (new_response cfg req) = None"
  by (simp add: new_response_def applySecurityHeaders_def fresh_sink_def)

lemma new_response_hasBody: "hasBody (new_response cfg req) = (req_method req \<noteq> ''HEAD'')"
  by (simp add: new_response_def applySecurityHeaders_def fresh_sink_def)

subsection \<open>Slug validation\<close>

lemma validateSlug_iff:
  "validateSlug sl \<longleftrightarrow> 1 \<le> length sl \<and> length sl \<le> 50 \<and> set sl \<subseteq> set slug_chars"
  by (auto simp: validateSlug_def isLength_def matches_slug_pattern_def list_all_iff)

text \<open>
  C8. A request whose path is a slug path and which passes the rate limit is handed on to
  forwarding or queueing only if its slug consists of the characters \<open>A-Z a-z 0-9 _ -\<close>
  and has length 1 to 50. Any other slug, the empty one and one of length 51 included, is
  answered with 400 and creates no pending record; a valid slug (of length 50, say) that
  the whitelist admits is answered neither with 400 nor with 403 and is given a request id.
\<close>

theorem slug_validation:
  assumes path: "req_pathname req = Some (CHR ''/'' # sl)"
    and routed: "CHR ''/'' # sl \<noteq> ''/auth/login''" "CHR ''/'' # sl \<noteq> ''/status''"
                "take 5 (CHR ''/'' # sl) \<noteq> ''/api/''"
    and gate: "enableRateLimit (securityConfig st) \<longrightarrow>
               fst (checkRateLimit (securityConfig st) now (req_ip req) (is_upgrade req)
                      (rateLimitTracker st))"
  shows "(validateSlug sl \<longleftrightarrow> 1 \<le> length sl \<and> length sl \<le> 50 \<and> set sl \<subseteq> set slug_chars)
     \<and> (\<not> validateSlug sl \<longrightarrow>
          (\<exists>st'. httpRequest env now req c st = Inr st' \<and> res_status (sinks st' c) = Some 400
                \<and> pendingRequests st' = pendingRequests st \<and> uuid_next st' = uuid_next st))
     \<and> (validateSlug sl \<and> (slugWhitelist (securityConfig st) = [] \<or> sl \<in> set (slugWhitelist (securityConfig st))) \<longrightarrow>
          (\<exists>st'. httpRequest env now req c st = Inr st' \<and> res_status (sinks st' c) \<noteq> Some 400
                \<and> res_status (sinks st' c) \<noteq> Some 403
                \<and> uuid_next st' = Suc (uuid_next st)))"
proof (intro conjI impI)
  show "validateSlug sl \<longleftrightarrow> 1 \<le> length sl \<and> length sl \<le> 50 \<and> set sl \<subseteq> set slug_chars"
    by (rule validateSlug_iff)
next
  assume bad: "\<not> validateSlug sl"
  show "\<exists>st'. httpRequest env now req c st = Inr st' \<and> res_status (sinks st' c) = Some 400
                \<and> pendingRequests st' = pendingRequests st \<and> uuid_next st' = uuid_next st"
    using path routed gate bad
    by (cases "sl = []") (auto simp: httpRequest_def Let_def reject_def write_error_def)
next
  assume ok: "validateSlug sl \<and> (slugWhitelist (securityConfig st) = [] \<or> sl \<in> set (slugWhitelist (securityConfig st)))"
  then have ne: "sl \<noteq> []" by (auto simp: validateSlug_def isLength_def)
  from routed have nst: "sl \<noteq> ''status''" by simp
  let ?st2 = "st \<lparr> sinks := (sinks st)(c := new_response (securityConfig st) req),
                     rateLimitTracker := snd (if enableRateLimit (securityConfig st)
                  then checkRateLimit (securityConfig st) now (req_ip req) (is_upgrade req) (rateLimitTracker st)
                  else (True, rateLimitTracker st)) \<rparr>"
  have s0: "res_status (sinks ?st2 c) = None" by (simp add: fresh_status)
  show "\<exists>st'. httpRequest env now req c st = Inr st' \<and> res_status (sinks st' c) \<noteq> Some 400
                \<and> res_status (sinks st' c) \<noteq> Some 403
                \<and> uuid_next st' = Suc (uuid_next st)"
  proof (cases "map_of (clients st) sl")
    case None
    then show ?thesis using path routed gate ok ne nst
      by (auto simp: httpRequest_def Let_def hrwoc_facts fresh_status)
  next
    case (Some client)
    show ?thesis
    proof (cases "readyState env client = 1")
      case False
      then show ?thesis using Some path routed gate ok ne nst
        by (auto simp: httpRequest_def Let_def hrwoc_facts fresh_status)
    next
      case True
      have eq: "httpRequest env now req c st = Inr (handleRequestWithClient env now req c sl client ?st2)"
        using True Some path routed gate ok ne nst
        by (auto simp: httpRequest_def Let_def)
      from hrwc_status[of env now req c sl client ?st2 c] s0
      have "res_status (sinks (handleRequestWithClient env now req c sl client ?st2) c) = None
          \<or> res_status (sinks (handleRequestWithClient env now req c sl client ?st2) c) = Some 500"
        by simp
      then show ?thesis unfolding eq
        by (auto simp: hrwc_uuid)
    qed
  qed
qed

theorem slug_validation_witness:
  "\<not> validateSlug (replicate 51 CHR ''x'')
   \<and> (\<exists>st'. httpRequest env_open 0 (get_request ''10.0.0.1'' (CHR ''/'' # replicate 51 CHR ''x'')) 7
               (initial_server default_config) = Inr st'
          \<and> res_status (sinks st' 7) = Some 400 \<and> pendingRequests st' = [])
   \<and> validateSlug (replicate 50 CHR ''x'')
   \<and> (\<exists>st'. httpRequest env_open 0 (get_request ''10.0.0.1'' (CHR ''/'' # replicate 50 CHR ''x'')) 7
               (initial_server default_config) = Inr st'
          \<and> res_status (sinks st' 7) \<noteq> Some 400 \<and> uuid_next st' = 1)"
proof -
  let ?st = "initial_server default_config"
  let ?r51 = "get_request ''10.0.0.1'' (CHR ''/'' # replicate 51 CHR ''x'')"
  let ?r50 = "get_request ''10.0.0.1'' (CHR ''/'' # replicate 50 CHR ''x'')"
  have gate: "enableRateLimit (securityConfig ?st) \<longrightarrow>
        fst (checkRateLimit (securityConfig ?st) 0 (req_ip (get_request ''10.0.0.1'' p))
               (is_upgrade (get_request ''10.0.0.1'' p)) (rateLimitTracker ?st))" for p
    by (simp add: initial_server_def default_config_def checkRateLimit_def get_request_def
          is_upgrade_def Let_def)
  have r: "CHR ''/'' # replicate n CHR ''x'' \<noteq> ''/auth/login''"
          "CHR ''/'' # replicate n CHR ''x'' \<noteq> ''/status''"
          "take 5 (CHR ''/'' # replicate n CHR ''x'') \<noteq> ''/api/''" if "0 < n" for n
    using that by (cases n; simp)+
  have p: "req_pathname (get_request ''10.0.0.1'' (CHR ''/'' # sl)) = Some (CHR ''/'' # sl)" for sl
    by (simp add: get_request_def)
  have wl: "slugWhitelist (securityConfig ?st) = []"
    by (simp add: initial_server_def default_config_def)
  have pd: "pendingRequests ?st = []" and un: "uuid_next ?st = 0"
    by (simp_all add: initial_server_def)
  have n51: "(0::nat) < 51" and n50: "(0::nat) < 50" by simp_all
  note t51 = slug_validation[OF p r(1)[OF n51] r(2)[OF n51] r(3)[OF n51] gate, of env_open 7]
  note t50 = slug_validation[OF p r(1)[OF n50] r(2)[OF n50] r(3)[OF n50] gate, of env_open 7]
  have a51: "\<not> validateSlug (replicate 51 CHR ''x'')"
    using t51 by simp
  have a50: "validateSlug (replicate 50 CHR ''x'')"
    using t50 by (simp add: slug_chars_def)
  from t51 a51 have e51: "\<exists>st'. httpRequest env_open 0 ?r51 7 ?st = Inr st'
          \<and> res_status (sinks st' 7) = Some 400 \<and> pendingRequests st' = []"
    unfolding pd un by blast
  from t50 a50 wl have e50: "\<exists>st'. httpRequest env_open 0 ?r50 7 ?st = Inr st'
          \<and> res_status (sinks st' 7) \<noteq> Some 400 \<and> uuid_next st' = 1"
    unfolding un by auto
  from a51 e51 a50 e50 show ?thesis by blast
qed

subsection \<open>Header sanitiser\<close>

text \<open>
  C9. The header sanitiser is idempotent: sanitising its own output changes nothing.
\<close>

theorem sanitizeHeaders_idempotent:
  "sanitizeHeaders (sanitizeHeaders h) = sanitizeHeaders h"
  by (simp add: sanitizeHeaders_def)

subsection \<open>Evaluating runs\<close>

lemma validateInput_POST: "validateInput (HStr ''POST'')" by code_simp
lemma validateInput_GET: "validateInput (HStr ''GET'')" by code_simp
lemma validateInput_svc: "validateInput (HStr ''/svc-a'')" by code_simp
lemma validateSlug_svc: "validateSlug ''svc-a''" by code_simp

lemma bound_server_eq:
  "bound_server = (initial_server default_config) \<lparr> clients := [(''svc-a'', 1)], outbox := [(1, FRegistered ''svc-a'')] \<rparr>"
  by (simp add: bound_server_def registerClient_def initial_server_def processPendingRequestsForSlug_def
        try_send_def ws_send_def env_open_def Let_def)

lemmas http_defs =
  httpRequest_def Let_def checkRateLimit_def is_upgrade_def get_request_def post_request_def
  after_request_def initial_server_def default_config_def

lemmas forward_defs =
  handleRequestWithClient_def handleRequestWithClient_begin_def
  handleRequestWithClient_resume_def collectRequestData_def ws_send_def addLog_def
  broadcastToStatusClients_def maxLogs_def sanitizeHeaders_def

lemma queued_once_fields:
  "map fst (pendingRequests queued_once) = [0]"
  "map (p_timestamp \<circ> snd) (pendingRequests queued_once) = [0]"
  "map (p_timeout \<circ> snd) (pendingRequests queued_once) = [0]"
  "map (p_res \<circ> snd) (pendingRequests queued_once) = [7]"
  "map fst (timers queued_once) = [0]"
  "res_status (sinks queued_once 7) = None"
  "totalRequests queued_once = 0" "successfulResponses queued_once = 0" "failedResponses queued_once = 0"
  by (simp_all add: queued_once_def http_defs handleRequestWithoutClient_def validateSlug_svc fresh_status)

lemma forwarded_once_fields:
  "pendingRequests forwarded_once =
     [(0, \<lparr> p_res = 7, p_timeout = 0, p_slug = ''svc-a'', p_req = None, p_timestamp = 5,
            p_startTime = Some 5 \<rparr>)]"
  "res_status (sinks forwarded_once 7) = None"
  "clients forwarded_once = [(''svc-a'', 1)]"
  "successfulResponses forwarded_once = 0" "failedResponses forwarded_once = 0"
  "totalRequests forwarded_once = 1"
  "map fst (timers forwarded_once) = [0]"
  "statusClients forwarded_once = []"
  "hasBody (sinks forwarded_once 7)"
  by (simp_all add: forwarded_once_def bound_server_eq http_defs forward_defs env_open_def
        validateSlug_svc validateInput_GET validateInput_svc fresh_status new_response_hasBody)

lemma validateInput_HEAD: "validateInput (HStr ''HEAD'')" by code_simp

lemma forwarded_head_fields:
  "pendingRequests forwarded_head =
     [(0, \<lparr> p_res = 7, p_timeout = 0, p_slug = ''svc-a'', p_req = None, p_timestamp = 5,
            p_startTime = Some 5 \<rparr>)]"
  "res_status (sinks forwarded_head 7) = None"
  "\<not> hasBody (sinks forwarded_head 7)"
  by (simp_all add: forwarded_head_def bound_server_eq http_defs forward_defs env_open_def
        validateSlug_svc validateInput_HEAD validateInput_svc fresh_status new_response_hasBody)

lemma queued_behind_closing_fields:
  "pendingRequests queued_behind_closing =
     [(0, \<lparr> p_res = 7, p_timeout = 0, p_slug = ''svc-a'',
            p_req = Some (get_request ''10.0.0.1'' ''/svc-a''), p_timestamp = 5,
            p_startTime = None \<rparr>)]"
  "res_status (sinks queued_behind_closing 7) = None"
  "clients queued_behind_closing = [(''svc-a'', 1)]"
  "statusClients queued_behind_closing = []"
  "outbox queued_behind_closing = [(1, FRegistered ''svc-a'')]"
  "timers queued_behind_closing = [(0, Timer QueueDeadline 7 30005)]"
  by (simp_all add: queued_behind_closing_def env_closing_def bound_server_eq http_defs
        handleRequestWithoutClient_def env_open_def validateSlug_svc fresh_status)

lemma queued_once_eq:
  "queued_once =
     (initial_server default_config)
       \<lparr> pendingRequests :=
           [(0, \<lparr> p_res = 7, p_timeout = 0, p_slug = ''svc-a'',
                  p_req = Some (get_request ''10.0.0.1'' ''/svc-a''), p_timestamp = 0,
                  p_startTime = None \<rparr>)],
         rateLimitTracker := [(''10.0.0.1'', \<lparr> requests = [0], connections = [] \<rparr>)],
         sinks := (\<lambda>_. fresh_sink)(7 := new_response default_config (get_request ''10.0.0.1'' ''/svc-a'')),
         timers := [(0, Timer QueueDeadline 7 30000)],
         uuid_next := 1 \<rparr>"
  by (simp add: queued_once_def http_defs handleRequestWithoutClient_def validateSlug_svc)

lemma queued_twice_eq:
  "queued_twice =
     (initial_server default_config)
       \<lparr> pendingRequests :=
           [(0, \<lparr> p_res = 7, p_timeout = 0, p_slug = ''svc-a'',
                  p_req = Some (get_request ''10.0.0.1'' ''/svc-a''), p_timestamp = 0,
                  p_startTime = None \<rparr>),
            (1, \<lparr> p_res = 8, p_timeout = 1, p_slug = ''svc-a'',
                  p_req = Some (post_request ''10.0.0.1'' ''/svc-a'' ''second''), p_timestamp = 6,
                  p_startTime = None \<rparr>)],
         rateLimitTracker := [(''10.0.0.1'', \<lparr> requests = [0, 6], connections = [] \<rparr>)],
         sinks := (\<lambda>_. fresh_sink)
                    (7 := new_response default_config (get_request ''10.0.0.1'' ''/svc-a''),
                     8 := new_response default_config (post_request ''10.0.0.1'' ''/svc-a'' ''second'')),
         timers := [(0, Timer QueueDeadline 7 30000), (1, Timer QueueDeadline 8 30006)],
         uuid_next := 2 \<rparr>"
  unfolding queued_twice_def queued_once_eq
  by (simp add: httpRequest_def Let_def checkRateLimit_def is_upgrade_def post_request_def
        get_request_def after_request_def initial_server_def default_config_def
        handleRequestWithoutClient_def validateSlug_svc)

lemma queued_twice_fields:
  "pendingRequests queued_twice =
           [(0, \<lparr> p_res = 7, p_timeout = 0, p_slug = ''svc-a'',
                  p_req = Some (get_request ''10.0.0.1'' ''/svc-a''), p_timestamp = 0,
                  p_startTime = None \<rparr>),
            (1, \<lparr> p_res = 8, p_timeout = 1, p_slug = ''svc-a'',
                  p_req = Some (post_request ''10.0.0.1'' ''/svc-a'' ''second''), p_timestamp = 6,
                  p_startTime = None \<rparr>)]"
  "securityConfig queued_twice = default_config"
  "outbox queued_twice = []"
  "failedResponses queued_twice = 0"
  by (simp_all add: queued_twice_eq initial_server_def)

subsection \<open>Rate limit\<close>

lemma gate_exact:
  "fst (checkRateLimit cfg t ip up rl) =
     (length (filter (\<lambda>r. r > t - 60000) (requests_of rl ip)) < maxRequestsPerMinute cfg
      \<and> (up \<longrightarrow> length (filter (\<lambda>r. r > t - 60000) (connections_of rl ip)) < maxConnectionsPerIP cfg))"
  "requests_of (snd (checkRateLimit cfg t ip up rl)) ip =
     filter (\<lambda>r. r > t - 60000) (requests_of rl ip) @
     (if length (filter (\<lambda>r. r > t - 60000) (requests_of rl ip)) < maxRequestsPerMinute cfg
      then [t] else [])"
  "connections_of (snd (checkRateLimit cfg t ip up rl)) ip =
     (if up \<and> length (filter (\<lambda>r. r > t - 60000) (requests_of rl ip)) < maxRequestsPerMinute cfg
      then filter (\<lambda>r. r > t - 60000) (connections_of rl ip) @
           (if length (filter (\<lambda>r. r > t - 60000) (connections_of rl ip)) < maxConnectionsPerIP cfg
            then [t] else [])
      else connections_of rl ip)"
  by (cases "map_of rl ip";
      simp add: checkRateLimit_def requests_of_def connections_of_def Let_def AList.update_conv' not_less)+

lemma gate_other:
  "ip' \<noteq> ip \<Longrightarrow> requests_of (snd (checkRateLimit cfg t ip up rl)) ip' = requests_of rl ip'"
  "ip' \<noteq> ip \<Longrightarrow> connections_of (snd (checkRateLimit cfg t ip up rl)) ip' = connections_of rl ip'"
  by (simp_all add: checkRateLimit_def requests_of_def connections_of_def Let_def AList.update_conv')

lemma http_gate:
  assumes en: "enableRateLimit (securityConfig st)"
  shows "securityConfig (after_request (httpRequest env now req c st)) = securityConfig st"
    and "rateLimitTracker (after_request (httpRequest env now req c st)) =
           snd (checkRateLimit (securityConfig st) now (req_ip req) (is_upgrade req) (rateLimitTracker st))"
    and "answered_429 (httpRequest env now req c st) c =
           (\<not> fst (checkRateLimit (securityConfig st) now (req_ip req) (is_upgrade req) (rateLimitTracker st)))"
proof -
  let ?gate = "checkRateLimit (securityConfig st) now (req_ip req) (is_upgrade req) (rateLimitTracker st)"
  let ?st2 = "st \<lparr> sinks := (sinks st)(c := new_response (securityConfig st) req),
                     rateLimitTracker := snd ?gate \<rparr>"
  have s0: "res_status (sinks ?st2 c) = None" by (simp add: fresh_status)
  have all: "securityConfig (after_request (httpRequest env now req c st)) = securityConfig st
     \<and> rateLimitTracker (after_request (httpRequest env now req c st)) = snd ?gate
     \<and> answered_429 (httpRequest env now req c st) c = (\<not> fst ?gate)"
  proof (cases "fst ?gate")
    case False
    then show ?thesis using en
      by (simp add: httpRequest_def Let_def reject_def write_error_def after_request_def answered_429_def)
  next
    case True
    show ?thesis
    proof (cases "req_pathname req")
      case None
      then show ?thesis using en True
        by (simp add: httpRequest_def Let_def reply_if_unsent_status fresh_status after_request_def
              answered_429_def)
    next
      case (Some p)
      have w: "res_status (sinks (handleRequestWithClient env now req c (drop 1 p) client ?st2) c) \<noteq> Some 429"
        for client
        using hrwc_status[of env now req c "drop 1 p" client ?st2 c] s0 by auto
      show ?thesis using en True Some w
        by (auto simp: httpRequest_def Let_def reject_def write_error_def hrwc_cfg hrwoc_facts fresh_status
                 after_request_def answered_429_def
                 split: option.splits)
    qed
  qed
  from all show "securityConfig (after_request (httpRequest env now req c st)) = securityConfig st"
    and "rateLimitTracker (after_request (httpRequest env now req c st)) = snd ?gate"
    and "answered_429 (httpRequest env now req c st) c = (\<not> fst ?gate)"
    by simp_all
qed

lemma gate_at_any_state:
  assumes en: "enableRateLimit (securityConfig s)"
  shows "answered_429 (httpRequest env now req c s) c \<longleftrightarrow>
           maxRequestsPerMinute (securityConfig s) \<le>
             length (filter (\<lambda>r. r > now - 60000) (requests_of (rateLimitTracker s) (req_ip req)))
           \<or> (is_upgrade req \<and>
               maxConnectionsPerIP (securityConfig s) \<le>
                 length (filter (\<lambda>r. r > now - 60000) (connections_of (rateLimitTracker s) (req_ip req))))"
    and "requests_of (rateLimitTracker (after_request (httpRequest env now req c s))) (req_ip req) =
           filter (\<lambda>r. r > now - 60000) (requests_of (rateLimitTracker s) (req_ip req)) @
           (if length (filter (\<lambda>r. r > now - 60000) (requests_of (rateLimitTracker s) (req_ip req)))
                 < maxRequestsPerMinute (securityConfig s)
            then [now] else [])"
  unfolding http_gate[OF en] gate_exact by auto

lemma in_window_filter:
  "in_window t ip H = length (filter (\<lambda>r. r > t - 60000) (map fst (filter (\<lambda>e. snd e = ip) H)))"
  by (induction H) (auto simp: in_window_def)

lemma filter_later:
  "(t::int) \<le> t' \<Longrightarrow>
   filter (\<lambda>r. t - 60000 < r \<and> t' - 60000 < r) xs = filter (\<lambda>r. r > t' - 60000) xs"
  by (induction xs) auto

text \<open>The tracker keeps, for each address, the recorded timestamps that were newer than
  60 seconds at the last request of the address. As long as time does not run backwards,
  that is enough to count the entries of any later window.\<close>

lemma serve_window:
  assumes "enableRateLimit (securityConfig st)"
      and "sorted (map arrival_time as)"
      and "\<forall>a\<in>set as. t0 \<le> arrival_time a"
      and "\<forall>ip t. t0 \<le> t \<longrightarrow>
             filter (\<lambda>r. r > t - 60000) (requests_of (rateLimitTracker st) ip) =
               filter (\<lambda>r. r > t - 60000) (map fst (filter (\<lambda>e. snd e = ip) H))
           \<and> filter (\<lambda>r. r > t - 60000) (connections_of (rateLimitTracker st) ip) =
               filter (\<lambda>r. r > t - 60000) (map fst (filter (\<lambda>e. snd e = ip) C))"
  shows "serve as st = map Not (window_admits (securityConfig st) (map gate_key as) H C)"
  using assms
proof (induction as arbitrary: st H C t0)
  case Nil
  then show ?case by simp
next
  case (Cons a as)
  let ?cfg = "securityConfig st"
  let ?t = "arrival_time a"
  let ?ip = "req_ip (arrival_req a)"
  let ?up = "is_upgrade (arrival_req a)"
  let ?rl = "rateLimitTracker st"
  let ?res = "httpRequest (fst a) ?t (arrival_req a) (snd (snd (snd a))) st"
  let ?st' = "after_request ?res"
  let ?rl' = "snd (checkRateLimit ?cfg ?t ?ip ?up ?rl)"
  let ?n = "length (filter (\<lambda>r. r > ?t - 60000) (requests_of ?rl ?ip))"
  let ?k = "length (filter (\<lambda>r. r > ?t - 60000) (connections_of ?rl ?ip))"
  note en = Cons.prems(1)
  from Cons.prems(3) have t0: "t0 \<le> ?t" by simp
  from Cons.prems(2) have later: "\<forall>b\<in>set as. ?t \<le> arrival_time b" and srt: "sorted (map arrival_time as)"
    by simp_all
  note inv = Cons.prems(4)
  have n: "?n = in_window ?t ?ip H" and k: "?k = in_window ?t ?ip C"
    using inv[rule_format, OF t0, of ?ip] by (simp_all add: in_window_filter)
  have cfg': "securityConfig ?st' = ?cfg" and rl': "rateLimitTracker ?st' = ?rl'"
    and ans: "answered_429 ?res (snd (snd (snd a))) = (\<not> fst (checkRateLimit ?cfg ?t ?ip ?up ?rl))"
    using http_gate[OF en, of "fst a" ?t "arrival_req a" "snd (snd (snd a))"] by simp_all
  have en': "enableRateLimit (securityConfig ?st')" using en cfg' by simp
  have key: "gate_key a = (?t, ?ip, ?up)" by (simp add: gate_key_def)
  define H' where "H' = (if ?n < maxRequestsPerMinute ?cfg then H @ [(?t, ?ip)] else H)"
  define C' where "C' = (if ?n < maxRequestsPerMinute ?cfg \<and> ?up \<and> ?k < maxConnectionsPerIP ?cfg
                         then C @ [(?t, ?ip)] else C)"
  have inv': "\<forall>ip t. ?t \<le> t \<longrightarrow>
             filter (\<lambda>r. r > t - 60000) (requests_of (rateLimitTracker ?st') ip) =
               filter (\<lambda>r. r > t - 60000) (map fst (filter (\<lambda>e. snd e = ip) H'))
           \<and> filter (\<lambda>r. r > t - 60000) (connections_of (rateLimitTracker ?st') ip) =
               filter (\<lambda>r. r > t - 60000) (map fst (filter (\<lambda>e. snd e = ip) C'))"
  proof (intro allI impI)
    fix ip t assume t: "?t \<le> t"
    then have t0t: "t0 \<le> t" using t0 by simp
    note i = inv[rule_format, OF t0t, of ip]
    show "filter (\<lambda>r. r > t - 60000) (requests_of (rateLimitTracker ?st') ip) =
               filter (\<lambda>r. r > t - 60000) (map fst (filter (\<lambda>e. snd e = ip) H'))
           \<and> filter (\<lambda>r. r > t - 60000) (connections_of (rateLimitTracker ?st') ip) =
               filter (\<lambda>r. r > t - 60000) (map fst (filter (\<lambda>e. snd e = ip) C'))"
    proof (cases "ip = ?ip")
      case False
      then show ?thesis using i by (simp add: rl' gate_other H'_def C'_def)
    next
      case True
      show ?thesis using i t unfolding True
        by (simp add: rl' gate_exact H'_def C'_def filter_later)
    qed
  qed
  have ih: "serve as ?st' = map Not (window_admits ?cfg (map gate_key as) H' C')"
    using Cons.IH[OF en' srt later inv'] cfg' by simp
  show ?case
    using ih ans n k
    by (simp add: key gate_exact(1) H'_def C'_def not_less)
qed

lemma serve_from_start:
  assumes en: "enableRateLimit (securityConfig st)"
      and empty: "rateLimitTracker st = []"
      and times: "sorted (map arrival_time as)"
  shows "serve as st = map Not (window_admits (securityConfig st) (map gate_key as) [] [])"
proof (cases as)
  case Nil
  then show ?thesis by simp
next
  case (Cons a as')
  have lo: "\<forall>b\<in>set as. arrival_time a \<le> arrival_time b"
    using times Cons by auto
  have inv: "\<forall>ip t. arrival_time a \<le> t \<longrightarrow>
             filter (\<lambda>r. r > t - 60000) (requests_of (rateLimitTracker st) ip) =
               filter (\<lambda>r. r > t - 60000) (map fst (filter (\<lambda>e. snd e = ip) []))
           \<and> filter (\<lambda>r. r > t - 60000) (connections_of (rateLimitTracker st) ip) =
               filter (\<lambda>r. r > t - 60000) (map fst (filter (\<lambda>e. snd e = ip) []))"
    by (simp add: empty requests_of_def connections_of_def)
  show ?thesis by (rule serve_window[OF en times lo inv])
qed

lemma in_window_snoc:
  "in_window t ip (H @ [e]) = in_window t ip H + (if snd e = ip \<and> t - 60000 < fst e then 1 else 0)"
  by (simp add: in_window_def)

lemma window_cons:
  "window_admits cfg (k # ks) H C =
     (in_window (fst k) (fst (snd k)) H < maxRequestsPerMinute cfg
      \<and> (snd (snd k) \<longrightarrow> in_window (fst k) (fst (snd k)) C < maxConnectionsPerIP cfg)) #
     window_admits cfg ks
       (if in_window (fst k) (fst (snd k)) H < maxRequestsPerMinute cfg
        then H @ [(fst k, fst (snd k))] else H)
       (if in_window (fst k) (fst (snd k)) H < maxRequestsPerMinute cfg \<and> snd (snd k)
           \<and> in_window (fst k) (fst (snd k)) C < maxConnectionsPerIP cfg
        then C @ [(fst k, fst (snd k))] else C)"
  by (simp add: not_le)

lemma window_plain:
  assumes "\<forall>k\<in>set ks. fst (snd k) = ip \<longrightarrow> \<not> snd (snd k)"
  shows "\<forall>i<length ks. fst (snd (ks ! i)) = ip \<longrightarrow>
           (window_admits cfg ks H C ! i \<longleftrightarrow>
              in_window (fst (ks ! i)) ip H +
              length (filter (\<lambda>x. snd x \<and> fst (snd (fst x)) = ip \<and> fst (ks ! i) - 60000 < fst (fst x))
                        (take i (zip ks (window_admits cfg ks H C)))) < maxRequestsPerMinute cfg)"
  using assms
proof (induction ks arbitrary: H C)
  case Nil
  then show ?case by simp
next
  case (Cons k ks)
  define w0 where "w0 = (in_window (fst k) (fst (snd k)) H < maxRequestsPerMinute cfg
      \<and> (snd (snd k) \<longrightarrow> in_window (fst k) (fst (snd k)) C < maxConnectionsPerIP cfg))"
  define H' where "H' = (if in_window (fst k) (fst (snd k)) H < maxRequestsPerMinute cfg
        then H @ [(fst k, fst (snd k))] else H)"
  define C' where "C' = (if in_window (fst k) (fst (snd k)) H < maxRequestsPerMinute cfg \<and> snd (snd k)
           \<and> in_window (fst k) (fst (snd k)) C < maxConnectionsPerIP cfg
        then C @ [(fst k, fst (snd k))] else C)"
  have W: "window_admits cfg (k # ks) H C = w0 # window_admits cfg ks H' C'"
    unfolding w0_def H'_def C'_def by (rule window_cons)
  have w0: "w0 = (in_window (fst k) ip H < maxRequestsPerMinute cfg)" if "fst (snd k) = ip"
    using that Cons.prems by (simp add: w0_def)
  have H': "in_window t ip H' = in_window t ip H + (if w0 \<and> fst (snd k) = ip \<and> t - 60000 < fst k then 1 else 0)"
    for t
  proof (cases "fst (snd k) = ip")
    case True
    then show ?thesis using w0[OF True] by (simp add: H'_def in_window_snoc)
  next
    case False
    then show ?thesis by (simp add: H'_def in_window_snoc)
  qed
  from Cons.prems have rest: "\<forall>k\<in>set ks. fst (snd k) = ip \<longrightarrow> \<not> snd (snd k)" by simp
  note ih = Cons.IH[OF rest, of H' C', rule_format]
  show ?case
  proof (intro allI impI)
    fix i assume i: "i < length (k # ks)" and ip: "fst (snd ((k # ks) ! i)) = ip"
    show "window_admits cfg (k # ks) H C ! i \<longleftrightarrow>
              in_window (fst ((k # ks) ! i)) ip H +
              length (filter (\<lambda>x. snd x \<and> fst (snd (fst x)) = ip \<and> fst ((k # ks) ! i) - 60000 < fst (fst x))
                        (take i (zip (k # ks) (window_admits cfg (k # ks) H C)))) < maxRequestsPerMinute cfg"
    proof (cases i)
      case 0
      then show ?thesis using ip w0 unfolding W by simp
    next
      case (Suc j)
      with i ip have j: "j < length ks" "fst (snd (ks ! j)) = ip" by simp_all
      show ?thesis
        unfolding W Suc using ih[OF j] by (simp add: H')
    qed
  qed
qed


lemma window_length: "length (window_admits cfg ks H C) = length ks"
  by (induction ks arbitrary: H C) (simp_all add: window_cons del: window_admits.simps(2))

lemma zip_maps: "zip (map f xs) (map g ys) = map (\<lambda>x. (f (fst x), g (snd x))) (zip xs ys)"
  by (simp add: zip_map_map case_prod_unfold)

lemma serve_plain:
  assumes eq: "serve as st = map Not (window_admits cfg (map gate_key as) [] [])"
      and i: "i < length as"
      and plain: "\<forall>a\<in>set as. req_ip (arrival_req a) = req_ip (arrival_req (as ! i)) \<longrightarrow>
                    \<not> is_upgrade (arrival_req a)"
  shows "serve as st ! i \<longleftrightarrow>
           maxRequestsPerMinute cfg \<le>
             length (filter (\<lambda>x. \<not> snd x \<and> req_ip (arrival_req (fst x)) = req_ip (arrival_req (as ! i))
                               \<and> arrival_time (as ! i) - 60000 < arrival_time (fst x))
                       (take i (zip as (serve as st))))"
proof -
  define ks where "ks = map gate_key as"
  define W where "W = window_admits cfg ks [] []"
  define S where "S = serve as st"
  define ip where "ip = req_ip (arrival_req (as ! i))"
  define t where "t = arrival_time (as ! i)"
  have S: "S = map Not W" unfolding S_def W_def ks_def by (rule eq)
  have Wl: "length W = length as" unfolding W_def ks_def by (simp add: window_length)
  have WS: "W = map Not S" unfolding S by (simp add: comp_def)
  have p: "\<forall>k\<in>set ks. fst (snd k) = ip \<longrightarrow> \<not> snd (snd k)"
    using plain unfolding ks_def ip_def by (auto simp: gate_key_def)
  have il: "i < length ks" using i by (simp add: ks_def)
  have ki: "fst (ks ! i) = t" "fst (snd (ks ! i)) = ip"
    using i by (simp_all add: ks_def gate_key_def t_def ip_def)
  from window_plain[OF p, of cfg "[]" "[]", rule_format, OF il ki(2)]
  have w: "W ! i \<longleftrightarrow>
       length (filter (\<lambda>x. snd x \<and> fst (snd (fst x)) = ip \<and> t - 60000 < fst (fst x))
                 (take i (zip ks W))) < maxRequestsPerMinute cfg"
    unfolding W_def[symmetric] ki by (simp add: in_window_def)
  have z: "zip ks W = map (\<lambda>x. (gate_key (fst x), \<not> snd x)) (zip as S)"
    unfolding ks_def WS by (rule zip_maps)
  have c: "length (filter (\<lambda>x. snd x \<and> fst (snd (fst x)) = ip \<and> t - 60000 < fst (fst x))
                 (take i (zip ks W))) =
           length (filter (\<lambda>x. \<not> snd x \<and> req_ip (arrival_req (fst x)) = ip
                               \<and> t - 60000 < arrival_time (fst x))
                       (take i (zip as S)))"
    unfolding z by (simp add: take_map filter_map comp_def gate_key_def)
  have "S ! i = (\<not> W ! i)"
    unfolding S using i Wl by simp
  then show ?thesis using w c unfolding S_def ip_def t_def by auto
qed

lemma limits:
  "maxRequestsPerMinute default_config = 100" "maxConnectionsPerIP default_config = 10"
  "maxRequestsPerMinute limit_two = 2" "maxConnectionsPerIP limit_two = 10"
  by (simp_all add: limit_two_def default_config_def)

lemma window_four:
  "window_admits limit_two (map gate_key four_arrivals) [] [] = [True, True, True, False]"
  by (simp add: four_arrivals_def gate_key_def arrival_time_def arrival_req_def get_request_def
        is_upgrade_def in_window_def limits)

lemma window_burst:
  "window_admits default_config (map gate_key upgrade_burst) [] [] =
     [True, True, True, True, True, True, True, True, True, True, False]"
  by (simp add: upgrade_burst_def gate_key_def arrival_time_def arrival_req_def get_request_def
        upgrade_request_def is_upgrade_def in_window_def limits)

text \<open>
  C7 (as the code has it). With rate limiting enabled, at any state of the tracker and on
  any path, a request is answered with 429 exactly when \<open>maxRequestsPerMinute\<close>
  timestamps newer than \<open>now - 60000\<close> are on record for its address, or when it
  carries \<open>upgrade: websocket\<close> and \<open>maxConnectionsPerIP\<close> such timestamps are on
  record for its connections; its own timestamp is recorded when the first test lets it
  pass. Over any run of HTTP requests, of any addresses and on any paths, that starts with
  an empty tracker and in which time does not run backwards, the gate therefore answers
  as a window that slides with each request does: the request is answered with 429
  exactly when \<open>maxRequestsPerMinute\<close> requests of its address were recorded within the
  60 seconds before it, or when it carries \<open>upgrade: websocket\<close> and
  \<open>maxConnectionsPerIP\<close> such requests of its address were admitted within these 60
  seconds. So for an address none of whose requests carries \<open>upgrade: websocket\<close>,
  whatever the other addresses send: a request is answered with 429 exactly when
  \<open>maxRequestsPerMinute\<close> earlier requests of the address, no older than 60 seconds,
  were admitted.
\<close>

theorem rate_limit_sliding_window:
  assumes en: "enableRateLimit (securityConfig st)"
      and empty: "rateLimitTracker st = []"
      and times: "sorted (map arrival_time as)"
      and en': "enableRateLimit (securityConfig s)"
  shows "serve as st = map Not (window_admits (securityConfig st) (map gate_key as) [] [])
       \<and> (\<forall>i<length as.
            (\<forall>a\<in>set as. req_ip (arrival_req a) = req_ip (arrival_req (as ! i)) \<longrightarrow>
                         \<not> is_upgrade (arrival_req a)) \<longrightarrow>
            (serve as st ! i \<longleftrightarrow>
               maxRequestsPerMinute (securityConfig st) \<le>
                 length (filter (\<lambda>x. \<not> snd x
                                   \<and> req_ip (arrival_req (fst x)) = req_ip (arrival_req (as ! i))
                                   \<and> arrival_time (as ! i) - 60000 < arrival_time (fst x))
                           (take i (zip as (serve as st))))))
       \<and> (answered_429 (httpRequest env now req c s) c \<longleftrightarrow>
             maxRequestsPerMinute (securityConfig s) \<le>
               length (filter (\<lambda>r. r > now - 60000) (requests_of (rateLimitTracker s) (req_ip req)))
             \<or> (is_upgrade req \<and>
                 maxConnectionsPerIP (securityConfig s) \<le>
                   length (filter (\<lambda>r. r > now - 60000) (connections_of (rateLimitTracker s) (req_ip req)))))
       \<and> requests_of (rateLimitTracker (after_request (httpRequest env now req c s))) (req_ip req) =
           filter (\<lambda>r. r > now - 60000) (requests_of (rateLimitTracker s) (req_ip req)) @
           (if length (filter (\<lambda>r. r > now - 60000) (requests_of (rateLimitTracker s) (req_ip req)))
                 < maxRequestsPerMinute (securityConfig s)
            then [now] else [])"
  using serve_from_start[OF en empty times] serve_plain[OF serve_from_start[OF en empty times]]
        gate_at_any_state[OF en', of env now req c]
  by blast

theorem rate_limit_sliding_window_witness:
  "sorted (map arrival_time four_arrivals)
   \<and> map arrival_time four_arrivals = [0, 59999, 60000, 60001]
   \<and> maxRequestsPerMinute limit_two = 2
   \<and> serve four_arrivals (initial_server limit_two) = [False, False, False, True]
   \<and> length (filter (\<lambda>x. \<not> snd x \<and> req_ip (arrival_req (fst x)) = req_ip (arrival_req (four_arrivals ! 3))
                          \<and> arrival_time (four_arrivals ! 3) - 60000 < arrival_time (fst x))
               (take 3 (zip four_arrivals (serve four_arrivals (initial_server limit_two))))) = 2
   \<and> serve four_arrivals (initial_server limit_two) ! 3
   \<and> requests_of (rateLimitTracker queued_twice) ''10.0.0.1'' = [0, 6]
   \<and> \<not> answered_429 (httpRequest env_open 60005 (get_request ''10.0.0.1'' ''/status'') 9 queued_twice) 9
   \<and> requests_of (rateLimitTracker (after_request
         (httpRequest env_open 60005 (get_request ''10.0.0.1'' ''/status'') 9 queued_twice))) ''10.0.0.1''
       = [6, 60005]"
proof -
  let ?st = "initial_server limit_two"
  have en: "enableRateLimit (securityConfig ?st)"
    and empty: "rateLimitTracker ?st = []"
    and cfg: "securityConfig ?st = limit_two"
    by (simp_all add: initial_server_def limit_two_def default_config_def)
  have ts: "map arrival_time four_arrivals = [0, 59999, 60000, 60001]"
    by (simp add: four_arrivals_def arrival_time_def)
  have times: "sorted (map arrival_time four_arrivals)"
    unfolding ts by simp
  have m: "maxRequestsPerMinute limit_two = 2"
    by (simp add: limits)
  have en2: "enableRateLimit (securityConfig queued_twice)"
    by (simp add: queued_twice_fields default_config_def)
  have rq: "requests_of (rateLimitTracker queued_twice) ''10.0.0.1'' = [0, 6]"
    by (simp add: queued_twice_eq initial_server_def requests_of_def)
  have ip: "req_ip (get_request ''10.0.0.1'' ''/status'') = ''10.0.0.1''"
    and up: "\<not> is_upgrade (get_request ''10.0.0.1'' ''/status'')"
    by (simp_all add: get_request_def is_upgrade_def)
  note t = rate_limit_sliding_window[OF en empty times en2,
             where env=env_open and now=60005 and req="get_request ''10.0.0.1'' ''/status''" and c=9]
  from t[THEN conjunct1]
  have run: "serve four_arrivals ?st = [False, False, False, True]"
    unfolding cfg window_four by simp
  have plain: "\<forall>a\<in>set four_arrivals. req_ip (arrival_req a) = req_ip (arrival_req (four_arrivals ! 3)) \<longrightarrow>
                 \<not> is_upgrade (arrival_req a)"
    by (simp add: four_arrivals_def arrival_req_def get_request_def is_upgrade_def)
  have n: "length (filter (\<lambda>x. \<not> snd x \<and> req_ip (arrival_req (fst x)) = req_ip (arrival_req (four_arrivals ! 3))
                          \<and> arrival_time (four_arrivals ! 3) - 60000 < arrival_time (fst x))
               (take 3 (zip four_arrivals (serve four_arrivals ?st)))) = 2"
    unfolding run by (simp add: four_arrivals_def arrival_req_def arrival_time_def get_request_def)
  have l: "3 < length four_arrivals" by (simp add: four_arrivals_def)
  from t[THEN conjunct2, THEN conjunct1, THEN spec, THEN mp, OF l, THEN mp, OF plain]
  have last: "serve four_arrivals ?st ! 3"
    unfolding cfg m n by simp
  from t[THEN conjunct2, THEN conjunct2, THEN conjunct1]
  have adm: "\<not> answered_429 (httpRequest env_open 60005 (get_request ''10.0.0.1'' ''/status'') 9 queued_twice) 9"
    unfolding ip rq by (simp add: up queued_twice_fields limits)
  from t[THEN conjunct2, THEN conjunct2, THEN conjunct2]
  have rec: "requests_of (rateLimitTracker (after_request
         (httpRequest env_open 60005 (get_request ''10.0.0.1'' ''/status'') 9 queued_twice))) ''10.0.0.1''
       = [6, 60005]"
    unfolding ip rq by (simp add: queued_twice_fields limits)
  from times ts m run n last rq adm rec show ?thesis by blast
qed

text \<open>The claim as stated fails: of eleven requests of one address that carry
  \<open>upgrade: websocket\<close>, the eleventh is answered with 429 although only ten requests
  were admitted in the window and the maximum is 100.\<close>

theorem upgrade_requests_limited_counterexample:
  "maxRequestsPerMinute default_config = 100
   \<and> map arrival_time upgrade_burst = [0, 1, 2, 3, 4, 5, 6, 7, 8, 9, 10]
   \<and> serve upgrade_burst (initial_server default_config) =
       [False, False, False, False, False, False, False, False, False, False, True]"
proof -
  have en: "enableRateLimit (securityConfig (initial_server default_config))"
    and empty: "rateLimitTracker (initial_server default_config) = []"
    and cfg: "securityConfig (initial_server default_config) = default_config"
    by (simp_all add: initial_server_def default_config_def)
  have ts: "map arrival_time upgrade_burst = [0, 1, 2, 3, 4, 5, 6, 7, 8, 9, 10]"
    by (simp add: upgrade_burst_def arrival_time_def)
  have times: "sorted (map arrival_time upgrade_burst)"
    unfolding ts by simp
  have m: "maxRequestsPerMinute default_config = 100"
    by (simp add: limits)
  from serve_from_start[OF en empty times]
  have "serve upgrade_burst (initial_server default_config) =
       [False, False, False, False, False, False, False, False, False, False, True]"
    unfolding cfg window_burst by simp
  with ts m show ?thesis by blast
qed

subsection \<open>Body size\<close>

text \<open>
  C3. With the default configuration and a handler bound, a body of 10 MiB + 1 characters
  is rejected while it is accumulated, but the reply is 500 \<open>Internal server error\<close>, not
  413; a body of exactly 10 MiB is forwarded and stays pending.
\<close>

theorem oversize_body_replies_500:
  "res_status (sinks (after_request (httpRequest env_open 5 (post_request ''10.0.0.1'' ''/svc-a''
        (replicate (10 * 1024 * 1024 + 1) CHR ''a'')) 7 bound_server)) 7) = Some 500
   \<and> res_body (sinks (after_request (httpRequest env_open 5 (post_request ''10.0.0.1'' ''/svc-a''
        (replicate (10 * 1024 * 1024 + 1) CHR ''a'')) 7 bound_server)) 7)
       = Some (ErrorJson ''Internal server error'')
   \<and> pendingRequests (after_request (httpRequest env_open 5 (post_request ''10.0.0.1'' ''/svc-a''
        (replicate (10 * 1024 * 1024 + 1) CHR ''a'')) 7 bound_server)) = []
   \<and> res_status (sinks (after_request (httpRequest env_open 5 (post_request ''10.0.0.1'' ''/svc-a''
        (replicate (10 * 1024 * 1024) CHR ''a'')) 7 bound_server)) 7) = None
   \<and> map fst (pendingRequests (after_request (httpRequest env_open 5 (post_request ''10.0.0.1'' ''/svc-a''
        (replicate (10 * 1024 * 1024) CHR ''a'')) 7 bound_server))) = [0]"
  by (simp add: bound_server_eq http_defs forward_defs env_open_def validateSlug_svc
        validateInput_POST validateInput_svc fresh_status new_response_hasBody reply_if_unsent_def
        headersSent_def write_error_def no_body_status_def)

subsection \<open>Periodic cleanup\<close>

lemma clean_entries_frame:
  "sinks (clean_entries co es st) = sinks st"
  "totalRequests (clean_entries co es st) = totalRequests st"
  "successfulResponses (clean_entries co es st) = successfulResponses st"
  "failedResponses (clean_entries co es st) = failedResponses st"
  "logs (clean_entries co es st) = logs st"
  "statusClients (clean_entries co es st) = statusClients st"
  by (induction es arbitrary: st) (simp_all add: clearTimeout_def Let_def)

lemma clean_entries_pending:
  "pendingRequests (clean_entries co es st) =
     filter (\<lambda>e. fst e \<notin> fst ` {x \<in> set es. p_timestamp (snd x) < co}) (pendingRequests st)"
proof (induction es arbitrary: st)
  case Nil
  then show ?case by simp
next
  case (Cons e es)
  show ?case
  proof (cases "p_timestamp (snd e) < co")
    case True
    have "{x \<in> set (e # es). p_timestamp (snd x) < co} = insert e {x \<in> set es. p_timestamp (snd x) < co}"
      using True by auto
    then show ?thesis using True
      by (simp add: Cons.IH clearTimeout_def Let_def AList.delete_eq) (rule filter_cong, auto)
  next
    case False
    have "{x \<in> set (e # es). p_timestamp (snd x) < co} = {x \<in> set es. p_timestamp (snd x) < co}"
      using False by auto
    then show ?thesis using False by (simp add: Cons.IH)
  qed
qed

lemma clean_entries_timers:
  "timers (clean_entries co es st) =
     filter (\<lambda>t. fst t \<notin> (p_timeout \<circ> snd) ` {x \<in> set es. p_timestamp (snd x) < co}) (timers st)"
proof (induction es arbitrary: st)
  case Nil
  then show ?case by simp
next
  case (Cons e es)
  show ?case
  proof (cases "p_timestamp (snd e) < co")
    case True
    have "{x \<in> set (e # es). p_timestamp (snd x) < co} = insert e {x \<in> set es. p_timestamp (snd x) < co}"
      using True by auto
    then show ?thesis using True
      by (simp add: Cons.IH clearTimeout_def Let_def AList.delete_eq) (rule filter_cong, auto)
  next
    case False
    have "{x \<in> set (e # es). p_timestamp (snd x) < co} = {x \<in> set es. p_timestamp (snd x) < co}"
      using False by auto
    then show ?thesis using False by (simp add: Cons.IH)
  qed
qed

lemma distinct_filter_keys:
  assumes "distinct (map fst l)"
  shows "filter (\<lambda>e. fst e \<notin> fst ` {x \<in> set l. P x}) l = filter (\<lambda>e. \<not> P e) l"
proof (rule filter_cong[OF refl])
  fix e assume e: "e \<in> set l"
  have "fst e \<in> fst ` {x \<in> set l. P x} \<longleftrightarrow> P e"
  proof
    assume "fst e \<in> fst ` {x \<in> set l. P x}"
    then obtain x where x: "x \<in> set l" "P x" "fst x = fst e" by auto
    from assms x(1) e x(3) have "x = e" by (metis eq_key_imp_eq_value prod.collapse)
    with x show "P e" by simp
  next
    assume "P e" with e show "fst e \<in> fst ` {x \<in> set l. P x}" by auto
  qed
  then show "(fst e \<notin> fst ` {x \<in> set l. P x}) = (\<not> P e)" by simp
qed

lemma map_of_filter_None:
  "\<not> P k \<Longrightarrow> map_of (filter (\<lambda>t. P (fst t)) l) k = None"
  by (induction l) auto

text \<open>
  C10. The periodic cleanup removes from the pending table exactly the records whose
  timestamp is older than 300 seconds and clears their timers, so that neither a response
  nor a deadline can reach them any more; it writes to no reply sink and changes none of
  the counters of succeeded, failed and received requests.
\<close>

theorem cleanup_stale_pending:
  assumes d: "distinct (map fst (pendingRequests st))"
    and st': "st' = performMemoryCleanup env now st"
  shows "pendingRequests st' =
           filter (\<lambda>e. \<not> p_timestamp (snd e) < now - 300000) (pendingRequests st)
       \<and> (\<forall>e\<in>set (pendingRequests st). p_timestamp (snd e) < now - 300000 \<longrightarrow>
             map_of (pendingRequests st') (fst e) = None
             \<and> map_of (timers st') (p_timeout (snd e)) = None)
       \<and> sinks st' = sinks st
       \<and> successfulResponses st' = successfulResponses st
       \<and> failedResponses st' = failedResponses st
       \<and> totalRequests st' = totalRequests st"
proof -
  let ?st5 = "snd (cleanup_sweeps env now st)"
  have shape: "st' = ?st5 \<or> (\<exists>n. st' = addLog env now (MemoryCleanup n) ''server'' ?st5)"
    unfolding st' performMemoryCleanup_def by (cases "cleanup_sweeps env now st") auto
  have p: "pendingRequests st' = pendingRequests ?st5" and t: "timers st' = timers ?st5"
    and s: "sinks st' = sinks ?st5" and c1: "successfulResponses st' = successfulResponses ?st5"
    and c2: "failedResponses st' = failedResponses ?st5" and c3: "totalRequests st' = totalRequests ?st5"
    using shape by auto
  have p5: "pendingRequests ?st5 =
      filter (\<lambda>e. fst e \<notin> fst ` {x \<in> set (pendingRequests st). p_timestamp (snd x) < now - 300000})
        (pendingRequests st)"
    and t5: "timers ?st5 =
      filter (\<lambda>t. fst t \<notin> (p_timeout \<circ> snd) ` {x \<in> set (pendingRequests st). p_timestamp (snd x) < now - 300000})
        (timers st)"
    and f5: "sinks ?st5 = sinks st" "successfulResponses ?st5 = successfulResponses st"
       "failedResponses ?st5 = failedResponses st" "totalRequests ?st5 = totalRequests st"
    by (simp_all add: cleanup_sweeps_def Let_def clean_entries_pending clean_entries_timers clean_entries_frame)
  have P: "pendingRequests st' = filter (\<lambda>e. \<not> p_timestamp (snd e) < now - 300000) (pendingRequests st)"
    unfolding p p5 using distinct_filter_keys[OF d] by simp
  have T: "\<forall>e\<in>set (pendingRequests st). p_timestamp (snd e) < now - 300000 \<longrightarrow>
             map_of (pendingRequests st') (fst e) = None
             \<and> map_of (timers st') (p_timeout (snd e)) = None"
  proof (intro ballI impI)
    fix e assume e: "e \<in> set (pendingRequests st)" "p_timestamp (snd e) < now - 300000"
    then have "\<not> (p_timeout (snd e) \<notin> (p_timeout \<circ> snd) ` {x \<in> set (pendingRequests st). p_timestamp (snd x) < now - 300000})"
      by auto
    from map_of_filter_None[of "\<lambda>k. k \<notin> (p_timeout \<circ> snd) ` {x \<in> set (pendingRequests st). p_timestamp (snd x) < now - 300000}", OF this]
    have tm: "map_of (timers st') (p_timeout (snd e)) = None"
      unfolding t t5 by simp
    from e have "\<not> (fst e \<notin> fst ` {x \<in> set (pendingRequests st). p_timestamp (snd x) < now - 300000})"
      by auto
    from map_of_filter_None[of "\<lambda>k. k \<notin> fst ` {x \<in> set (pendingRequests st). p_timestamp (snd x) < now - 300000}", OF this]
    have pm: "map_of (pendingRequests st') (fst e) = None"
      unfolding p p5 by simp
    from pm tm show "map_of (pendingRequests st') (fst e) = None
             \<and> map_of (timers st') (p_timeout (snd e)) = None" by simp
  qed
  show ?thesis using P T s c1 c2 c3 f5 by simp
qed

theorem cleanup_stale_pending_witness:
  "map fst (pendingRequests queued_once) = [0]
   \<and> map fst (timers queued_once) = [0]
   \<and> pendingRequests (performMemoryCleanup env_open 300001 queued_once) = []
   \<and> map_of (timers (performMemoryCleanup env_open 300001 queued_once)) 0 = None
   \<and> res_status (sinks (performMemoryCleanup env_open 300001 queued_once) 7) = None
   \<and> failedResponses (performMemoryCleanup env_open 300001 queued_once) = 0
   \<and> successfulResponses (performMemoryCleanup env_open 300001 queued_once) = 0"
proof -
  have d: "distinct (map fst (pendingRequests queued_once))"
    by (simp add: queued_once_fields)
  obtain e where e: "pendingRequests queued_once = [e]" "fst e = 0" "p_timestamp (snd e) = 0" "p_timeout (snd e) = 0"
    using queued_once_fields(1,2,3) by (cases "pendingRequests queued_once") auto
  from cleanup_stale_pending[OF d refl, of env_open 300001] e
  show ?thesis
    by (simp add: queued_once_fields)
qed

subsection \<open>Responses\<close>

lemma ws_response_frame:
  "sl \<noteq> [] \<Longrightarrow>
   handleWebSocketMessage env now w (response_frame sl rid r) st = handleClientResponse env now sl rid r st"
  by (simp add: handleWebSocketMessage_def response_frame_def truthy_def)

lemma setHeaders_keeps:
  "setHeaders env hs s = Inl s' \<Longrightarrow> res_status s' = res_status s \<and> res_body s' = res_body s"
  "setHeaders env hs s = Inr s' \<Longrightarrow> res_status s' = res_status s \<and> res_body s' = res_body s"
  by (induction hs arbitrary: s) (auto simp: headersSent_def split: if_splits)

lemma setHeaders_ok:
  assumes "\<not> headersSent s" "\<forall>kv\<in>set hs. \<not> setHeaderThrows env (fst kv) (snd kv)"
  shows "setHeaders env hs s =
           Inr (s \<lparr> res_headers := foldl (\<lambda>h kv. setHeader (fst kv) (snd kv) h) (res_headers s) hs \<rparr>)"
  using assms by (induction hs arbitrary: s) (auto simp: headersSent_def)

lemma deliver_Inl:
  "deliver env r s = Inl s' \<Longrightarrow> res_status s' = res_status s"
  by (auto simp: deliver_def dest: setHeaders_keeps split: sum.splits if_splits)

lemma deliver_Inr:
  "deliver env r s = Inr s' \<Longrightarrow> res_status s' = Some (to_int32 (status_or_200 r))"
  by (auto simp: deliver_def split: sum.splits if_splits)

lemma addLog_last:
  "logs (addLog env now m l st) \<noteq> [] \<and>
   last (logs (addLog env now m l st)) = \<lparr> l_timestamp = now, l_level = l, l_message = m \<rparr>"
  by (simp add: addLog_def broadcastToStatusClients_def broadcast_frame Let_def maxLogs_def)

lemma hcr_unknown:
  assumes "map_of (pendingRequests st) rid = None"
  shows "handleClientResponse env now sl rid r st = addLog env now (NoPendingRequestFound rid) ''error'' st"
  using assms by (simp add: handleClientResponse_def)

lemma hcr_known:
  assumes "map_of (pendingRequests st) rid = Some pr"
  shows "pendingRequests (handleClientResponse env now sl rid r st) = AList.delete rid (pendingRequests st)"
    and "timers (handleClientResponse env now sl rid r st) = AList.delete (p_timeout pr) (timers st)"
    and "successfulResponses (handleClientResponse env now sl rid r st) + failedResponses (handleClientResponse env now sl rid r st)
         = successfulResponses st + failedResponses st + 1"
    and "totalRequests (handleClientResponse env now sl rid r st) = totalRequests st"
    and "headersSent (sinks (handleClientResponse env now sl rid r st) (p_res pr))"
  using assms
  by (auto simp: handleClientResponse_def Let_def clearTimeout_def reply_if_unsent_def headersSent_def
        write_error_def dest: deliver_Inr
        split: sum.splits)

lemma to_int32_id: "- 2147483648 \<le> n \<Longrightarrow> n < 2147483648 \<Longrightarrow> to_int32 n = n"
  by (simp add: to_int32_def)

lemma hcr_delivered:
  assumes pend: "map_of (pendingRequests st) rid = Some pr"
      and unsent: "\<not> headersSent (sinks st (p_res pr))"
      and hdrs: "\<forall>kv\<in>set (case resp_headers r of None \<Rightarrow> [] | Some hs \<Rightarrow> hs).
                    \<not> setHeaderThrows env (fst kv) (snd kv)"
      and code: "100 \<le> status_or_200 r \<and> status_or_200 r \<le> 999"
  shows "sinks (handleClientResponse env now sl rid r st) (p_res pr) =
           (sinks st (p_res pr))
             \<lparr> res_headers := foldl (\<lambda>h kv. setHeader (fst kv) (snd kv) h) (res_headers (sinks st (p_res pr)))
                                (case resp_headers r of None \<Rightarrow> [] | Some hs \<Rightarrow> hs),
               res_status := Some (status_or_200 r),
               res_body := Some (Raw (if hasBody (sinks st (p_res pr)) \<and> \<not> no_body_status (status_or_200 r)
                                      then (case resp_body r of None \<Rightarrow> [] | Some b \<Rightarrow> b) else [])),
               hasBody := hasBody (sinks st (p_res pr)) \<and> \<not> no_body_status (status_or_200 r) \<rparr>"
    and "successfulResponses (handleClientResponse env now sl rid r st) = successfulResponses st + 1"
    and "failedResponses (handleClientResponse env now sl rid r st) = failedResponses st"
proof -
  let ?s = "sinks st (p_res pr)"
  have w: "to_int32 (status_or_200 r) = status_or_200 r"
    using code by (intro to_int32_id) auto
  have d: "deliver env r ?s = Inr (?s \<lparr> res_headers := foldl (\<lambda>h kv. setHeader (fst kv) (snd kv) h) (res_headers ?s)
                                (case resp_headers r of None \<Rightarrow> [] | Some hs \<Rightarrow> hs),
               res_status := Some (status_or_200 r),
               res_body := Some (Raw (if hasBody ?s \<and> \<not> no_body_status (status_or_200 r)
                                      then (case resp_body r of None \<Rightarrow> [] | Some b \<Rightarrow> b) else [])),
               hasBody := hasBody ?s \<and> \<not> no_body_status (status_or_200 r) \<rparr>)"
    using unsent code by (simp add: deliver_def setHeaders_ok[OF unsent hdrs] headersSent_def w)
  show "sinks (handleClientResponse env now sl rid r st) (p_res pr) =
           ?s \<lparr> res_headers := foldl (\<lambda>h kv. setHeader (fst kv) (snd kv) h) (res_headers ?s)
                                (case resp_headers r of None \<Rightarrow> [] | Some hs \<Rightarrow> hs),
               res_status := Some (status_or_200 r),
               res_body := Some (Raw (if hasBody ?s \<and> \<not> no_body_status (status_or_200 r)
                                      then (case resp_body r of None \<Rightarrow> [] | Some b \<Rightarrow> b) else [])),
               hasBody := hasBody ?s \<and> \<not> no_body_status (status_or_200 r) \<rparr>"
    and "successfulResponses (handleClientResponse env now sl rid r st) = successfulResponses st + 1"
    and "failedResponses (handleClientResponse env now sl rid r st) = failedResponses st"
    using pend d by (simp_all add: handleClientResponse_def Let_def clearTimeout_def)
qed

text \<open>
  C1 (as the code has it). A response frame is matched by its request id alone, whatever
  session sent it and whatever slug it names: when no record has the id, the frame is
  dropped with a log entry of level \<open>error\<close> and the pending table, the sinks, the timers
  and the counters stay as they are; when a record has the id, the record is removed, its
  timer cleared, a reply written to its sink and one of the counters of succeeded and
  failed responses incremented.
\<close>

theorem response_matched_by_id_only:
  assumes slug: "sl \<noteq> []"
      and st': "st' = handleWebSocketMessage env now w (response_frame sl rid r) st"
  shows "(map_of (pendingRequests st) rid = None \<longrightarrow>
            pendingRequests st' = pendingRequests st \<and> sinks st' = sinks st \<and> timers st' = timers st
            \<and> successfulResponses st' = successfulResponses st
            \<and> failedResponses st' = failedResponses st
            \<and> last (logs st') = \<lparr> l_timestamp = now, l_level = ''error'',
                                    l_message = NoPendingRequestFound rid \<rparr>)
       \<and> (\<forall>pr. map_of (pendingRequests st) rid = Some pr \<longrightarrow>
            pendingRequests st' = AList.delete rid (pendingRequests st)
            \<and> timers st' = AList.delete (p_timeout pr) (timers st)
            \<and> headersSent (sinks st' (p_res pr))
            \<and> successfulResponses st' + failedResponses st' =
                successfulResponses st + failedResponses st + 1)"
proof -
  have s: "st' = handleClientResponse env now sl rid r st"
    unfolding st' by (rule ws_response_frame[OF slug])
  show ?thesis
    unfolding s using hcr_known[of st rid _ env now sl r]
    by (auto simp: hcr_unknown addLog_last)
qed

theorem response_matched_by_id_only_witness:
  "pendingRequests (handleWebSocketMessage env_open 9 2
         (response_frame ''other'' 0 \<lparr> statusCode = Some 200, resp_headers = None, resp_body = None \<rparr>)
         forwarded_once) = []
   \<and> headersSent (sinks (handleWebSocketMessage env_open 9 2
         (response_frame ''other'' 0 \<lparr> statusCode = Some 200, resp_headers = None, resp_body = None \<rparr>)
         forwarded_once) 7)
   \<and> pendingRequests (handleWebSocketMessage env_open 9 2
         (response_frame ''other'' 5 \<lparr> statusCode = Some 200, resp_headers = None, resp_body = None \<rparr>)
         forwarded_once) = pendingRequests forwarded_once
   \<and> l_message (last (logs (handleWebSocketMessage env_open 9 2
         (response_frame ''other'' 5 \<lparr> statusCode = Some 200, resp_headers = None, resp_body = None \<rparr>)
         forwarded_once))) = NoPendingRequestFound 5"
proof -
  have sl: "''other'' \<noteq> []" by simp
  from response_matched_by_id_only[OF sl refl, where env=env_open and now=9 and w=2 and rid=0 and st=forwarded_once]
       response_matched_by_id_only[OF sl refl, where env=env_open and now=9 and w=2 and rid=5 and st=forwarded_once]
  show ?thesis by (simp add: forwarded_once_fields)
qed

text \<open>The claim as stated fails: a session bound to nothing, naming another slug,
  completes the record of \<open>svc-a\<close>.\<close>

theorem response_from_unbound_session_counterexample:
  "map_of (clients forwarded_once) ''other'' = None
   \<and> map snd (clients forwarded_once) = [1]
   \<and> map (p_slug \<circ> snd) (pendingRequests forwarded_once) = [''svc-a'']
   \<and> pendingRequests (handleWebSocketMessage env_open 9 2
         (response_frame ''other'' 0 \<lparr> statusCode = Some 200, resp_headers = None, resp_body = Some ''forged'' \<rparr>)
         forwarded_once) = []
   \<and> res_body (sinks (handleWebSocketMessage env_open 9 2
         (response_frame ''other'' 0 \<lparr> statusCode = Some 200, resp_headers = None, resp_body = Some ''forged'' \<rparr>)
         forwarded_once) 7) = Some (Raw ''forged'')"
  by (simp add: forwarded_once_fields ws_response_frame handleClientResponse_def deliver_def
        status_or_200_def to_int32_def no_body_status_def headersSent_def Let_def clearTimeout_def)

text \<open>
  C6 (as the code has it). For a pending record whose sink has not been written, and a
  response whose headers the sink accepts, none of them a framing header, and whose status
  code is absent, zero or within 100..999: the status of the reply is
  \<open>response.statusCode\<close> when that is present and not zero and 200 otherwise; the body
  of the reply is \<open>response.body\<close> (empty when absent) if the reply may carry a body, and
  empty if the request was a \<open>HEAD\<close> request or the status is 1xx, 204 or 304; no header
  is set when the response has none; the response counts as succeeded and the record is
  gone.
\<close>

theorem response_round_trip:
  assumes slug: "sl \<noteq> []"
      and pend: "map_of (pendingRequests st) rid = Some pr"
      and unsent: "\<not> headersSent (sinks st (p_res pr))"
      and hdrs: "\<forall>kv\<in>set (case resp_headers r of None \<Rightarrow> [] | Some hs \<Rightarrow> hs).
                    \<not> setHeaderThrows env (fst kv) (snd kv)
                    \<and> toLowerCase (fst kv) \<notin> set framing_headers"
      and code: "statusCode r = None \<or> statusCode r = Some 0 \<or>
                 (\<exists>n. statusCode r = Some n \<and> 100 \<le> n \<and> n \<le> 999)"
      and st': "st' = handleWebSocketMessage env now w (response_frame sl rid r) st"
  shows "res_status (sinks st' (p_res pr)) =
           Some (if statusCode r = None \<or> statusCode r = Some 0 then 200 else the (statusCode r))
       \<and> res_body (sinks st' (p_res pr)) =
           Some (Raw (if hasBody (sinks st (p_res pr)) \<and> \<not> no_body_status (status_or_200 r)
                      then (case resp_body r of None \<Rightarrow> [] | Some b \<Rightarrow> b) else []))
       \<and> (resp_headers r = None \<longrightarrow>
            res_headers (sinks st' (p_res pr)) = res_headers (sinks st (p_res pr)))
       \<and> successfulResponses st' = successfulResponses st + 1
       \<and> map_of (pendingRequests st') rid = None"
proof -
  have c: "100 \<le> status_or_200 r \<and> status_or_200 r \<le> 999"
    using code by (auto simp: status_or_200_def)
  have e: "status_or_200 r = (if statusCode r = None \<or> statusCode r = Some 0 then 200 else the (statusCode r))"
    by (auto simp: status_or_200_def split: option.splits)
  have h: "\<forall>kv\<in>set (case resp_headers r of None \<Rightarrow> [] | Some hs \<Rightarrow> hs).
                    \<not> setHeaderThrows env (fst kv) (snd kv)"
    using hdrs by blast
  have s: "st' = handleClientResponse env now sl rid r st"
    unfolding st' by (rule ws_response_frame[OF slug])
  have 1: "res_status (sinks st' (p_res pr)) = Some (status_or_200 r)"
    and 2: "res_body (sinks st' (p_res pr)) =
           Some (Raw (if hasBody (sinks st (p_res pr)) \<and> \<not> no_body_status (status_or_200 r)
                      then (case resp_body r of None \<Rightarrow> [] | Some b \<Rightarrow> b) else []))"
    and 3: "resp_headers r = None \<longrightarrow>
            res_headers (sinks st' (p_res pr)) = res_headers (sinks st (p_res pr))"
    unfolding s hcr_delivered(1)[OF pend unsent h c] by simp_all
  have 4: "successfulResponses st' = successfulResponses st + 1"
    unfolding s by (rule hcr_delivered(2)[OF pend unsent h c])
  have 5: "map_of (pendingRequests st') rid = None"
    unfolding s hcr_known(1)[OF pend] by (simp add: AList.delete_conv')
  from 1 2 3 4 5 show ?thesis unfolding e by blast
qed

theorem response_round_trip_witness:
  "res_body (sinks (handleWebSocketMessage env_open 9 1
         (response_frame ''svc-a'' 0
            \<lparr> statusCode = Some 201, resp_headers = Some [(''Content-Type'', ''text/plain'')],
              resp_body = Some ''ok'' \<rparr>) forwarded_once) 7) = Some (Raw ''ok'')
   \<and> res_status (sinks (handleWebSocketMessage env_open 9 1
         (response_frame ''svc-a'' 0
            \<lparr> statusCode = Some 201, resp_headers = Some [(''Content-Type'', ''text/plain'')],
              resp_body = Some ''ok'' \<rparr>) forwarded_once) 7) = Some 201
   \<and> res_status (sinks (handleWebSocketMessage env_open 9 1
         (response_frame ''svc-a'' 0
            \<lparr> statusCode = None, resp_headers = None, resp_body = None \<rparr>) forwarded_once) 7) = Some 200
   \<and> res_body (sinks (handleWebSocketMessage env_open 9 1
         (response_frame ''svc-a'' 0
            \<lparr> statusCode = None, resp_headers = None, resp_body = None \<rparr>) forwarded_once) 7) = Some (Raw [])
   \<and> res_status (sinks (handleWebSocketMessage env_open 9 1
         (response_frame ''svc-a'' 0
            \<lparr> statusCode = Some 204, resp_headers = None, resp_body = Some ''ok'' \<rparr>) forwarded_once) 7) = Some 204
   \<and> res_body (sinks (handleWebSocketMessage env_open 9 1
         (response_frame ''svc-a'' 0
            \<lparr> statusCode = Some 204, resp_headers = None, resp_body = Some ''ok'' \<rparr>) forwarded_once) 7) = Some (Raw [])
   \<and> res_body (sinks (handleWebSocketMessage env_open 9 1
         (response_frame ''svc-a'' 0
            \<lparr> statusCode = Some 200, resp_headers = None, resp_body = Some ''ok'' \<rparr>) forwarded_head) 7) = Some (Raw [])"
proof -
  let ?pr = "\<lparr> p_res = 7, p_timeout = 0, p_slug = ''svc-a'', p_req = None, p_timestamp = 5,
            p_startTime = Some 5 \<rparr>"
  let ?r1 = "\<lparr> statusCode = Some 201, resp_headers = Some [(''Content-Type'', ''text/plain'')],
              resp_body = Some ''ok'' \<rparr>"
  let ?r2 = "\<lparr> statusCode = None, resp_headers = None, resp_body = None \<rparr>"
  let ?r3 = "\<lparr> statusCode = Some 204, resp_headers = None, resp_body = Some ''ok'' \<rparr>"
  let ?r4 = "\<lparr> statusCode = Some 200, resp_headers = None, resp_body = Some ''ok'' \<rparr>"
  have sl: "''svc-a'' \<noteq> []" by simp
  have pend: "map_of (pendingRequests forwarded_once) 0 = Some ?pr"
    by (simp add: forwarded_once_fields)
  have unsent: "\<not> headersSent (sinks forwarded_once (p_res ?pr))"
    by (simp add: headersSent_def forwarded_once_fields)
  have pendh: "map_of (pendingRequests forwarded_head) 0 = Some ?pr"
    by (simp add: forwarded_head_fields)
  have unsenth: "\<not> headersSent (sinks forwarded_head (p_res ?pr))"
    by (simp add: headersSent_def forwarded_head_fields)
  have h1: "\<forall>kv\<in>set (case resp_headers ?r1 of None \<Rightarrow> [] | Some hs \<Rightarrow> hs).
                    \<not> setHeaderThrows env_open (fst kv) (snd kv)
                    \<and> toLowerCase (fst kv) \<notin> set framing_headers"
    by (simp add: env_open_def framing_headers_def toLowerCase_def)
  have h0: "\<forall>kv\<in>set (case resp_headers \<lparr> statusCode = x, resp_headers = None, resp_body = y \<rparr>
                          of None \<Rightarrow> [] | Some hs \<Rightarrow> hs).
                    \<not> setHeaderThrows env_open (fst kv) (snd kv)
                    \<and> toLowerCase (fst kv) \<notin> set framing_headers" for x y
    by simp
  have c1: "statusCode ?r1 = None \<or> statusCode ?r1 = Some 0 \<or>
            (\<exists>n. statusCode ?r1 = Some n \<and> 100 \<le> n \<and> n \<le> 999)"
    by simp
  have c2: "statusCode ?r2 = None \<or> statusCode ?r2 = Some 0 \<or>
            (\<exists>n. statusCode ?r2 = Some n \<and> 100 \<le> n \<and> n \<le> 999)"
    by simp
  have c3: "statusCode ?r3 = None \<or> statusCode ?r3 = Some 0 \<or>
            (\<exists>n. statusCode ?r3 = Some n \<and> 100 \<le> n \<and> n \<le> 999)"
    by simp
  have c4: "statusCode ?r4 = None \<or> statusCode ?r4 = Some 0 \<or>
            (\<exists>n. statusCode ?r4 = Some n \<and> 100 \<le> n \<and> n \<le> 999)"
    by simp
  from response_round_trip[OF sl pend unsent h1 c1 refl, where now=9 and w=1]
       response_round_trip[OF sl pend unsent h0 c2 refl, where now=9 and w=1]
       response_round_trip[OF sl pend unsent h0 c3 refl, where now=9 and w=1]
       response_round_trip[OF sl pendh unsenth h0 c4 refl, where now=9 and w=1]
  show ?thesis
    by (simp add: status_or_200_def no_body_status_def forwarded_once_fields forwarded_head_fields)
qed

text \<open>The claim as stated fails for a status code that is present and zero.\<close>

theorem response_status_zero_counterexample:
  "statusCode \<lparr> statusCode = Some 0, resp_headers = None, resp_body = Some ''ok'' \<rparr> = Some 0
   \<and> map fst (pendingRequests forwarded_once) = [0]
   \<and> res_status (sinks (handleWebSocketMessage env_open 9 1
         (response_frame ''svc-a'' 0 \<lparr> statusCode = Some 0, resp_headers = None, resp_body = Some ''ok'' \<rparr>)
         forwarded_once) 7) = Some 200"
  by (simp add: forwarded_once_fields ws_response_frame handleClientResponse_def deliver_def
        status_or_200_def to_int32_def no_body_status_def headersSent_def Let_def clearTimeout_def)

subsection \<open>Session loss\<close>

lemma reject_entries_frame:
  "clients (reject_entries sl es st) = clients st"
  "totalRequests (reject_entries sl es st) = totalRequests st"
  "successfulResponses (reject_entries sl es st) = successfulResponses st"
  "failedResponses (reject_entries sl es st) = failedResponses st"
  "logs (reject_entries sl es st) = logs st"
  "statusClients (reject_entries sl es st) = statusClients st"
  "outbox (reject_entries sl es st) = outbox st"
  by (induction es arbitrary: st) (simp_all add: clearTimeout_def Let_def reply_if_unsent_def)

lemma reject_entries_pending:
  "pendingRequests (reject_entries sl es st) =
     filter (\<lambda>e. fst e \<notin> fst ` {x \<in> set es. p_slug (snd x) = sl}) (pendingRequests st)"
proof (induction es arbitrary: st)
  case Nil
  then show ?case by simp
next
  case (Cons e es)
  show ?case
  proof (cases "p_slug (snd e) = sl")
    case True
    have "{x \<in> set (e # es). p_slug (snd x) = sl} = insert e {x \<in> set es. p_slug (snd x) = sl}"
      using True by auto
    then show ?thesis using True
      by (simp add: Cons.IH clearTimeout_def Let_def AList.delete_eq) (rule filter_cong, auto)
  next
    case False
    have "{x \<in> set (e # es). p_slug (snd x) = sl} = {x \<in> set es. p_slug (snd x) = sl}"
      using False by auto
    then show ?thesis using False by (simp add: Cons.IH)
  qed
qed

lemma reject_entries_timers:
  "timers (reject_entries sl es st) =
     filter (\<lambda>t. fst t \<notin> (p_timeout \<circ> snd) ` {x \<in> set es. p_slug (snd x) = sl}) (timers st)"
proof (induction es arbitrary: st)
  case Nil
  then show ?case by simp
next
  case (Cons e es)
  show ?case
  proof (cases "p_slug (snd e) = sl")
    case True
    have "{x \<in> set (e # es). p_slug (snd x) = sl} = insert e {x \<in> set es. p_slug (snd x) = sl}"
      using True by auto
    then show ?thesis using True
      by (simp add: Cons.IH clearTimeout_def Let_def AList.delete_eq) (rule filter_cong, auto)
  next
    case False
    have "{x \<in> set (e # es). p_slug (snd x) = sl} = {x \<in> set es. p_slug (snd x) = sl}"
      using False by auto
    then show ?thesis using False by (simp add: Cons.IH)
  qed
qed

lemma reject_entries_sinks:
  "sinks (reject_entries sl es st) c =
     (if c \<in> (p_res \<circ> snd) ` {x \<in> set es. p_slug (snd x) = sl} \<and> \<not> headersSent (sinks st c)
      then write_error 503 ''No active WebSocket client for this slug'' (sinks st c)
      else sinks st c)"
proof (induction es arbitrary: st)
  case Nil
  then show ?case by simp
next
  case (Cons e es)
  show ?case
  proof (cases "p_slug (snd e) = sl")
    case True
    have S: "{x \<in> set (e # es). p_slug (snd x) = sl} = insert e {x \<in> set es. p_slug (snd x) = sl}"
      using True by auto
    have sent: "headersSent (write_error code m s)" for code m s
      by (simp add: headersSent_def write_error_def)
    show ?thesis using True
      by (auto simp: Cons.IH clearTimeout_def Let_def reply_if_unsent_def sent)
  next
    case False
    have "{x \<in> set (e # es). p_slug (snd x) = sl} = {x \<in> set es. p_slug (snd x) = sl}"
      using False by auto
    then show ?thesis using False by (simp add: Cons.IH)
  qed
qed

text \<open>
  C4 (as the code has it). When a session that is bound to a slug (and is not attached as
  a dashboard) is lost, the binding is removed and every pending record of that slug,
  forwarded or still queued, is removed from the pending table with its timer cleared and
  a 503 reply written to its sink unless the sink was written before; the records of other
  slugs stay, and no counter changes.
\<close>

theorem session_loss_rejects_slug:
  assumes nd: "w \<notin> set (statusClients st)"
      and bound: "find (\<lambda>e. snd e = w) (clients st) = Some (sl, w)"
      and d: "distinct (map fst (pendingRequests st))"
      and st': "st' = removeClient w st"
  shows "clients st' = AList.delete sl (clients st)
       \<and> pendingRequests st' = filter (\<lambda>e. p_slug (snd e) \<noteq> sl) (pendingRequests st)
       \<and> (\<forall>e\<in>set (pendingRequests st). p_slug (snd e) = sl \<longrightarrow>
             map_of (timers st') (p_timeout (snd e)) = None
             \<and> headersSent (sinks st' (p_res (snd e)))
             \<and> (\<not> headersSent (sinks st (p_res (snd e))) \<longrightarrow>
                  res_status (sinks st' (p_res (snd e))) = Some 503))
       \<and> successfulResponses st' = successfulResponses st
       \<and> failedResponses st' = failedResponses st
       \<and> totalRequests st' = totalRequests st"
proof -
  let ?st1 = "st \<lparr> clients := AList.delete sl (clients st) \<rparr>"
  have s: "st' = reject_entries sl (pendingRequests st) ?st1"
    unfolding st' using nd bound by (simp add: removeClient_def rejectPendingRequestsForSlug_def)
  have P: "pendingRequests st' = filter (\<lambda>e. p_slug (snd e) \<noteq> sl) (pendingRequests st)"
    unfolding s reject_entries_pending using distinct_filter_keys[OF d, of "\<lambda>x. p_slug (snd x) = sl"]
    by simp
  have T: "\<forall>e\<in>set (pendingRequests st). p_slug (snd e) = sl \<longrightarrow>
             map_of (timers st') (p_timeout (snd e)) = None
             \<and> headersSent (sinks st' (p_res (snd e)))
             \<and> (\<not> headersSent (sinks st (p_res (snd e))) \<longrightarrow>
                  res_status (sinks st' (p_res (snd e))) = Some 503)"
  proof (intro ballI impI)
    fix e assume e: "e \<in> set (pendingRequests st)" "p_slug (snd e) = sl"
    then have m: "\<not> (p_timeout (snd e) \<notin> (p_timeout \<circ> snd) ` {x \<in> set (pendingRequests st). p_slug (snd x) = sl})"
      by auto
    have t: "map_of (timers st') (p_timeout (snd e)) = None"
      unfolding s reject_entries_timers
      using map_of_filter_None[of "\<lambda>k. k \<notin> (p_timeout \<circ> snd) ` {x \<in> set (pendingRequests st). p_slug (snd x) = sl}", OF m]
      by simp
    have r: "p_res (snd e) \<in> (p_res \<circ> snd) ` {x \<in> set (pendingRequests st). p_slug (snd x) = sl}"
      using e by auto
    have h: "headersSent (sinks st' (p_res (snd e)))"
      unfolding s reject_entries_sinks using r by (simp add: headersSent_def write_error_def)
    have q: "\<not> headersSent (sinks st (p_res (snd e))) \<longrightarrow> res_status (sinks st' (p_res (snd e))) = Some 503"
      unfolding s reject_entries_sinks using r by (simp add: write_error_def)
    from t h q show "map_of (timers st') (p_timeout (snd e)) = None
             \<and> headersSent (sinks st' (p_res (snd e)))
             \<and> (\<not> headersSent (sinks st (p_res (snd e))) \<longrightarrow>
                  res_status (sinks st' (p_res (snd e))) = Some 503)" by simp
  qed
  show ?thesis using P T by (simp add: s reject_entries_frame)
qed

theorem session_loss_rejects_slug_witness:
  "pendingRequests (removeClient 1 forwarded_once) = []
   \<and> res_status (sinks (removeClient 1 forwarded_once) 7) = Some 503
   \<and> clients (removeClient 1 forwarded_once) = []
   \<and> failedResponses (removeClient 1 forwarded_once) = 0"
proof -
  have nd: "1 \<notin> set (statusClients forwarded_once)"
    by (simp add: forwarded_once_fields)
  have b: "find (\<lambda>e. snd e = 1) (clients forwarded_once) = Some (''svc-a'', 1)"
    by (simp add: forwarded_once_fields)
  have d: "distinct (map fst (pendingRequests forwarded_once))"
    by (simp add: forwarded_once_fields)
  from session_loss_rejects_slug[OF nd b d refl]
  show ?thesis by (simp add: forwarded_once_fields headersSent_def)
qed

text \<open>The claim as stated fails: a request queued while the bound socket was closing is
  unforwarded, and the loss of the session cancels it with 503.\<close>

theorem session_loss_queued_counterexample:
  "map (p_startTime \<circ> snd) (pendingRequests queued_behind_closing) = [None]
   \<and> outbox queued_behind_closing = [(1, FRegistered ''svc-a'')]
   \<and> clients queued_behind_closing = [(''svc-a'', 1)]
   \<and> pendingRequests (removeClient 1 queued_behind_closing) = []
   \<and> res_status (sinks (removeClient 1 queued_behind_closing) 7) = Some 503"
  by (simp add: queued_behind_closing_fields removeClient_def rejectPendingRequestsForSlug_def
        reply_if_unsent_def headersSent_def write_error_def clearTimeout_def Let_def)

subsection \<open>Counters\<close>

lemma length_update_fresh:
  "k \<notin> fst ` set al \<Longrightarrow> length (AList.update k v al) = Suc (length al)"
  by (induction al) auto

lemma fresh_ids_notin: "fresh_ids st \<Longrightarrow> uuid_next st \<notin> fst ` set (pendingRequests st)"
  by (auto simp: fresh_ids_def list_all_iff)

lemma hrwoc_counts:
  assumes "fresh_ids st"
  shows "length (pendingRequests (handleRequestWithoutClient now req c sl st)) = length (pendingRequests st) + 1"
    and "totalRequests (handleRequestWithoutClient now req c sl st) = totalRequests st"
    and "successfulResponses (handleRequestWithoutClient now req c sl st) = successfulResponses st"
    and "failedResponses (handleRequestWithoutClient now req c sl st) = failedResponses st"
  using fresh_ids_notin[OF assms]
  by (simp_all add: handleRequestWithoutClient_def Let_def length_update_fresh)

lemma hrwc_counts:
  assumes "fresh_ids st"
  shows "totalRequests (handleRequestWithClient env now req c sl client st) = totalRequests st + 1"
    and "successfulResponses (handleRequestWithClient env now req c sl client st) = successfulResponses st"
    and "failedResponses (handleRequestWithClient env now req c sl client st)
           + length (pendingRequests (handleRequestWithClient env now req c sl client st))
         = failedResponses st + length (pendingRequests st) + 1"
  using fresh_ids_notin[OF assms]
  by (simp_all add: handleRequestWithClient_def handleRequestWithClient_begin_def
        handleRequestWithClient_resume_def ws_send_def Let_def length_update_fresh
        split: sum.splits)


lemma hrwc_only_500:
  assumes "res_status (sinks st c) = None"
      and "res_status (sinks (handleRequestWithClient env now req c sl client st) c) = Some n"
  shows "n = 500"
  using hrwc_status[of env now req c sl client st c] assms by auto

lemma http_rejection_counts:
  assumes r: "httpRequest env now req c st = Inr st'"
      and s: "res_status (sinks st' c) \<in> {Some 400, Some 403, Some 429}"
  shows "totalRequests st' = totalRequests st \<and> failedResponses st' = failedResponses st
       \<and> successfulResponses st' = successfulResponses st
       \<and> pendingRequests st' = pendingRequests st"
proof -
  let ?cfg = "securityConfig st"
  let ?gate = "if enableRateLimit ?cfg
               then checkRateLimit ?cfg now (req_ip req) (is_upgrade req) (rateLimitTracker st)
               else (True, rateLimitTracker st)"
  let ?st2 = "st \<lparr> sinks := (sinks st)(c := new_response ?cfg req),
                     rateLimitTracker := snd ?gate \<rparr>"
  have s0: "res_status (sinks ?st2 c) = None" by (simp add: fresh_status)
  show ?thesis
  proof (cases "enableRateLimit ?cfg \<and> \<not> fst ?gate")
    case True
    then have "st' = reject c 429 ''Rate limit exceeded''
                 (addLog env now (RateLimitExceeded (req_ip req)) ''security'' ?st2)"
      using r by (auto simp: httpRequest_def Let_def split: if_splits)
    then show ?thesis by (simp add: reject_def)
  next
    case pass: False
    show ?thesis
    proof (cases "req_pathname req")
      case None
      then have "st' = reply_if_unsent c 500 ''Internal server error''
                         (addLog env now HttpRequestError ''error'' ?st2)"
        using r pass by (auto simp: httpRequest_def Let_def split: if_splits)
      then have "res_status (sinks st' c) = Some 500"
        by (simp add: reply_if_unsent_status fresh_status)
      with s show ?thesis by simp
    next
      case (Some p)
      have routes: "p \<noteq> ''/auth/login''" "p \<noteq> ''/status''" "take 5 p \<noteq> ''/api/''"
        using r pass Some by (auto simp: httpRequest_def Let_def split: if_splits)
      let ?sl = "drop 1 p"
      consider (rejected) e m where "st' = reject c e m ?st2 \<or> (\<exists>l lv. st' = reject c e m (addLog env now l lv ?st2))"
        | (queued) "st' = handleRequestWithoutClient now req c ?sl ?st2"
        | (forwarded) client where "st' = handleRequestWithClient env now req c ?sl client ?st2"
        using r pass Some routes
        by (auto simp: httpRequest_def Let_def split: if_splits option.splits)
      then show ?thesis
      proof cases
        case rejected
        then show ?thesis by (auto simp: reject_def)
      next
        case queued
        then have "res_status (sinks st' c) = None" by (simp add: hrwoc_facts fresh_status)
        with s show ?thesis by simp
      next
        case forwarded
        from hrwc_only_500[OF s0, of env now req ?sl client] forwarded s
        show ?thesis by auto
      qed
    qed
  qed
qed

text \<open>
  C2 (as the code has it). The totals are kept per path and not as an invariant. A request
  queued while no handler is bound enters the pending table and changes no counter, so it
  is not counted as received. A request handed to a bound handler counts as received once
  and then either counts as failed or enters the pending table. A request rejected at
  admission with 400, 403 or 429 changes neither the counters nor the pending table.
\<close>

theorem counters_by_path:
  assumes f: "fresh_ids st"
  shows "(totalRequests (handleRequestWithoutClient now req c sl st) = totalRequests st
          \<and> successfulResponses (handleRequestWithoutClient now req c sl st) = successfulResponses st
          \<and> failedResponses (handleRequestWithoutClient now req c sl st) = failedResponses st
          \<and> length (pendingRequests (handleRequestWithoutClient now req c sl st))
              = length (pendingRequests st) + 1)
       \<and> (totalRequests (handleRequestWithClient env now req c sl client st) = totalRequests st + 1
          \<and> successfulResponses (handleRequestWithClient env now req c sl client st) = successfulResponses st
          \<and> failedResponses (handleRequestWithClient env now req c sl client st)
               + length (pendingRequests (handleRequestWithClient env now req c sl client st))
              = failedResponses st + length (pendingRequests st) + 1)
       \<and> (\<forall>st'. httpRequest env now req c st = Inr st'
                 \<and> res_status (sinks st' c) \<in> {Some 400, Some 403, Some 429} \<longrightarrow>
               totalRequests st' = totalRequests st \<and> failedResponses st' = failedResponses st
               \<and> successfulResponses st' = successfulResponses st
               \<and> pendingRequests st' = pendingRequests st)"
  using hrwoc_counts[OF f, of now req c sl] hrwc_counts[OF f, of env now req c sl client]
        http_rejection_counts[of env now req c st]
  by blast

theorem counters_by_path_witness:
  "fresh_ids (initial_server default_config)
   \<and> totalRequests (handleRequestWithoutClient 0 (get_request ''10.0.0.1'' ''/svc-a'') 7 ''svc-a''
        (initial_server default_config)) = 0
   \<and> length (pendingRequests (handleRequestWithoutClient 0 (get_request ''10.0.0.1'' ''/svc-a'') 7 ''svc-a''
        (initial_server default_config))) = 1
   \<and> totalRequests (handleRequestWithClient env_open 0 (get_request ''10.0.0.1'' ''/svc-a'') 7 ''svc-a'' 1
        (initial_server default_config)) = 1"
proof -
  have f: "fresh_ids (initial_server default_config)"
    by (simp add: fresh_ids_def initial_server_def)
  have z: "totalRequests (initial_server default_config) = 0"
          "length (pendingRequests (initial_server default_config)) = 0"
    by (simp_all add: initial_server_def)
  from counters_by_path[OF f, of 0 "get_request ''10.0.0.1'' ''/svc-a''" 7 "''svc-a''" env_open 1] f z
  show ?thesis by simp
qed

text \<open>The equation of the claim fails after a single request for a slug without
  handler: one record is pending, nothing was received.\<close>

theorem queued_request_not_counted_counterexample:
  "successfulResponses queued_once + failedResponses queued_once + length (pendingRequests queued_once)
     \<noteq> totalRequests queued_once"
proof -
  have "length (pendingRequests queued_once) = length (map fst (pendingRequests queued_once))"
    by simp
  then show ?thesis by (simp only: queued_once_fields) simp
qed

subsection \<open>Draining on registration\<close>

lemma broadcast_forwarded:
  "forwarded_to w (foldl (broadcast_step env (FLog l m)) st ws) = forwarded_to w st"
  by (induction ws arbitrary: st) (simp_all add: broadcast_step_def ws_send_def forwarded_to_def)

lemma forwarded_to_upd [simp]:
  "forwarded_to w (st \<lparr> logs := a1 \<rparr>) = forwarded_to w st"
  "forwarded_to w (st \<lparr> uuid_next := a2 \<rparr>) = forwarded_to w st"
  "forwarded_to w (st \<lparr> totalRequests := a3 \<rparr>) = forwarded_to w st"
  "forwarded_to w (st \<lparr> pendingRequests := a4 \<rparr>) = forwarded_to w st"
  "forwarded_to w (st \<lparr> timers := a5 \<rparr>) = forwarded_to w st"
  "forwarded_to w (st \<lparr> failedResponses := a6 \<rparr>) = forwarded_to w st"
  "forwarded_to w (st \<lparr> sinks := a7 \<rparr>) = forwarded_to w st"
  "forwarded_to w (st \<lparr> clients := a8 \<rparr>) = forwarded_to w st"
  "forwarded_to w (st \<lparr> closes := a9 \<rparr>) = forwarded_to w st"
  "forwarded_to w (st \<lparr> awaiting := a10 \<rparr>) = forwarded_to w st"
  "forwarded_to w (clearTimeout h st) = forwarded_to w st"
  "forwarded_to w (reply_if_unsent c code e st) = forwarded_to w st"
  by (simp_all add: forwarded_to_def clearTimeout_def reply_if_unsent_def)

lemma addLog_forwarded [simp]:
  "forwarded_to w (addLog env now m l st) = forwarded_to w st"
  by (simp add: addLog_def broadcastToStatusClients_def Let_def broadcast_forwarded)

lemma begin_facts:
  "fst (handleRequestWithClient_begin env now sl st) = uuid_next st"
  "pendingRequests (snd (handleRequestWithClient_begin env now sl st)) = pendingRequests st"
  "sinks (snd (handleRequestWithClient_begin env now sl st)) = sinks st"
  "failedResponses (snd (handleRequestWithClient_begin env now sl st)) = failedResponses st"
  "securityConfig (snd (handleRequestWithClient_begin env now sl st)) = securityConfig st"
  "forwarded_to w (snd (handleRequestWithClient_begin env now sl st)) = forwarded_to w st"
  "totalRequests (snd (handleRequestWithClient_begin env now sl st)) = totalRequests st + 1"
  "awaiting (snd (handleRequestWithClient_begin env now sl st)) = awaiting st"
  "uuid_next (snd (handleRequestWithClient_begin env now sl st)) = Suc (uuid_next st)"
  by (simp_all add: handleRequestWithClient_begin_def Let_def)

lemma started_frame:
  "sinks (drain_started env now sl w es st) = sinks st"
  "failedResponses (drain_started env now sl w es st) = failedResponses st"
  "forwarded_to w' (drain_started env now sl w es st) = forwarded_to w' st"
  "totalRequests (drain_started env now sl w es st) =
     totalRequests st + length (filter (\<lambda>e. p_slug (snd e) = sl) es)"
proof (induction es arbitrary: st)
  case Nil
  { case 1 show ?case by simp }
  { case 2 show ?case by simp }
  { case 3 show ?case by simp }
  { case 4 show ?case by simp }
next
  case (Cons e es)
  { case 1 show ?case by (simp add: Let_def Cons.IH begin_facts clearTimeout_def) }
  { case 2 show ?case by (simp add: Let_def Cons.IH begin_facts clearTimeout_def) }
  { case 3 show ?case by (simp add: Let_def Cons.IH begin_facts) }
  { case 4 show ?case by (simp add: Let_def Cons.IH begin_facts clearTimeout_def) }
qed

lemma started_pending:
  "pendingRequests (drain_started env now sl w es st) =
     filter (\<lambda>e. fst e \<notin> fst ` {x \<in> set es. p_slug (snd x) = sl}) (pendingRequests st)"
proof (induction es arbitrary: st)
  case Nil
  then show ?case by simp
next
  case (Cons e es)
  show ?case
  proof (cases "p_slug (snd e) = sl")
    case True
    have "{x \<in> set (e # es). p_slug (snd x) = sl} = insert e {x \<in> set es. p_slug (snd x) = sl}"
      using True by auto
    then show ?thesis using True
      by (simp add: Cons.IH clearTimeout_def Let_def AList.delete_eq begin_facts)
         (rule filter_cong, auto)
  next
    case False
    have "{x \<in> set (e # es). p_slug (snd x) = sl} = {x \<in> set es. p_slug (snd x) = sl}"
      using False by auto
    then show ?thesis using False by (simp add: Cons.IH)
  qed
qed

lemma started_awaiting:
  "map snd (awaiting (drain_started env now sl w es st)) =
     map snd (awaiting st) @
     map (\<lambda>e. \<lparr> s_req = p_req (snd e), s_res = p_res (snd e), s_slug = sl, s_client = w,
                s_startTime = now \<rparr>)
       (filter (\<lambda>e. p_slug (snd e) = sl) es)"
  by (induction es arbitrary: st) (simp_all add: Let_def begin_facts clearTimeout_def)

lemma in_set_update: "e \<in> set (AList.update k v al) \<Longrightarrow> e = (k, v) \<or> e \<in> set al"
  by (induction al) (auto split: if_splits)




lemma try_send_frame:
  "pendingRequests (try_send env w f st) = pendingRequests st"
  "sinks (try_send env w f st) = sinks st"
  "failedResponses (try_send env w f st) = failedResponses st"
  "totalRequests (try_send env w f st) = totalRequests st"
  "awaiting (try_send env w f st) = awaiting st"
  "securityConfig (try_send env w f st) = securityConfig st"
  "forwarded_to w' (try_send env w (FRegistered sl) st) = forwarded_to w' st"
  by (simp_all add: try_send_def ws_send_def forwarded_to_def)

lemma ws_registration_frame:
  "sl \<noteq> [] \<Longrightarrow> sl \<noteq> ''status'' \<Longrightarrow>
   handleWebSocketMessage env now w (registration_frame sl) st = registerClient env now w sl st"
  by (simp add: handleWebSocketMessage_def registration_frame_def truthy_def)

lemma register_shape:
  "\<exists>st2. pendingRequests st2 = pendingRequests st \<and> sinks st2 = sinks st
      \<and> failedResponses st2 = failedResponses st \<and> totalRequests st2 = totalRequests st
      \<and> awaiting st2 = awaiting st \<and> forwarded_to w st2 = forwarded_to w st
      \<and> registerClient env now w sl st =
          try_send env w (FRegistered sl) (drain_started env now sl w (pendingRequests st) st2)"
proof -
  let ?st1 = "case map_of (clients st) sl of
                   None \<Rightarrow> st
                 | Some existingClient \<Rightarrow>
                     if readyState env existingClient = 1
                     then st \<lparr> closes := closes st @ [(existingClient, 1000, ''Replaced by new client'')] \<rparr>
                     else st"
  let ?st2 = "?st1 \<lparr> clients := AList.update sl w (clients ?st1) \<rparr>"
  have "pendingRequests ?st2 = pendingRequests st \<and> sinks ?st2 = sinks st
      \<and> failedResponses ?st2 = failedResponses st \<and> totalRequests ?st2 = totalRequests st
      \<and> awaiting ?st2 = awaiting st \<and> forwarded_to w ?st2 = forwarded_to w st"
    by (simp split: option.splits)
  moreover have "pendingRequests ?st2 = pendingRequests st"
    by (simp split: option.splits)
  then have "registerClient env now w sl st =
          try_send env w (FRegistered sl) (drain_started env now sl w (pendingRequests st) ?st2)"
    by (simp add: registerClient_def processPendingRequestsForSlug_def Let_def)
  ultimately show ?thesis by blast
qed

text \<open>The registration: every record of the slug leaves the table, and a call is started
  for each, in the order of the table. Nothing is sent to the handler but the
  acknowledgement, and no reply is written.\<close>

lemma register_starts:
  fixes sl :: slug
  assumes sl: "sl \<noteq> []" "sl \<noteq> ''status''"
      and d: "distinct (map fst (pendingRequests st))"
      and st': "st' = handleWebSocketMessage env now w (registration_frame sl) st"
  shows "pendingRequests st' = filter (\<lambda>e. p_slug (snd e) \<noteq> sl) (pendingRequests st)"
    and "map snd (awaiting st') =
           map snd (awaiting st) @
           map (\<lambda>e. \<lparr> s_req = p_req (snd e), s_res = p_res (snd e), s_slug = sl, s_client = w,
                      s_startTime = now \<rparr>)
             (filter (\<lambda>e. p_slug (snd e) = sl) (pendingRequests st))"
    and "totalRequests st' =
           totalRequests st + length (filter (\<lambda>e. p_slug (snd e) = sl) (pendingRequests st))"
    and "sinks st' = sinks st"
    and "failedResponses st' = failedResponses st"
    and "forwarded_to w st' = forwarded_to w st"
proof -
  obtain st2 where st2: "pendingRequests st2 = pendingRequests st" "sinks st2 = sinks st"
      "failedResponses st2 = failedResponses st" "totalRequests st2 = totalRequests st"
      "awaiting st2 = awaiting st" "forwarded_to w st2 = forwarded_to w st"
      and reg: "registerClient env now w sl st =
          try_send env w (FRegistered sl) (drain_started env now sl w (pendingRequests st) st2)"
    using register_shape[where w=w and st=st and env=env and now=now and sl=sl] by blast
  have eq: "st' = try_send env w (FRegistered sl) (drain_started env now sl w (pendingRequests st) st2)"
    unfolding st' ws_registration_frame[OF sl] reg ..
  show "pendingRequests st' = filter (\<lambda>e. p_slug (snd e) \<noteq> sl) (pendingRequests st)"
    unfolding eq using distinct_filter_keys[OF d, of "\<lambda>x. p_slug (snd x) = sl"]
    by (simp add: try_send_frame started_pending st2)
  show "map snd (awaiting st') =
           map snd (awaiting st) @
           map (\<lambda>e. \<lparr> s_req = p_req (snd e), s_res = p_res (snd e), s_slug = sl, s_client = w,
                      s_startTime = now \<rparr>)
             (filter (\<lambda>e. p_slug (snd e) = sl) (pendingRequests st))"
    unfolding eq by (simp add: try_send_frame started_awaiting st2)
  show "totalRequests st' =
           totalRequests st + length (filter (\<lambda>e. p_slug (snd e) = sl) (pendingRequests st))"
    unfolding eq by (simp add: try_send_frame started_frame st2)
  show "sinks st' = sinks st"
    unfolding eq by (simp add: try_send_frame started_frame st2)
  show "failedResponses st' = failedResponses st"
    unfolding eq by (simp add: try_send_frame started_frame st2)
  show "forwarded_to w st' = forwarded_to w st"
    unfolding eq by (simp add: try_send_frame started_frame st2)
qed




lemma drained_twice_forwarded: "forwarded_to 1 drained_twice = []"
proof -
  have sl: "''svc-a'' \<noteq> []" "''svc-a'' \<noteq> ''status''" by simp_all
  have d: "distinct (map fst (pendingRequests queued_twice))"
    by (simp add: queued_twice_fields)
  show ?thesis
    using register_starts(6)[OF sl d drained_twice_def]
    by (simp add: forwarded_to_def queued_twice_fields)
qed




end
